theory Spec2Isabelle
  imports Main "HOL-Library.Sublist" "HOL-Library.Char_ord"
begin

section \<open>Strings and formatting used by the provider\<close>

text \<open>
  Go strings are byte sequences; they are modelled as \<open>string\<close> (a list of 8-bit
  characters).  The functions of this section are the pieces of the Go standard library
  that \<open>internal/config.go\<close> and \<open>internal/client.go\<close> call on strings:
  \<open>strings.HasSuffix\<close>, \<open>strings.Split\<close> with the one-byte separator \<open>"@"\<close>,
  the verb \<open>%d\<close> of \<open>fmt.Sprintf\<close> and \<open>url.URL.String\<close>.
\<close>

text \<open>\<open>strings.HasSuffix(s, suffix)\<close> is
  \<open>len(s) >= len(suffix) && s[len(s)-len(suffix):] == suffix\<close>.\<close>

definition HasSuffix :: "string \<Rightarrow> string \<Rightarrow> bool" where
  "HasSuffix s suf \<longleftrightarrow> length suf \<le> length s \<and> drop (length s - length suf) s = suf"

text \<open>\<open>strings.Split(s, sep)\<close> for a separator of one byte: the pieces of \<open>s\<close>
  between the occurrences of the separator; the result is never empty.\<close>

fun Split :: "string \<Rightarrow> char \<Rightarrow> string list" where
  "Split [] sep = [[]]"
| "Split (c # cs) sep =
     (if c = sep then [] # Split cs sep
      else (case Split cs sep of
              [] \<Rightarrow> [[c]]
            | piece # pieces \<Rightarrow> (c # piece) # pieces))"

text \<open>The verb \<open>%d\<close> applied to a Go \<open>int\<close>: decimal digits, with a leading minus sign
  for a negative number.  The ports are only printed, never computed with, so they are
  modelled as \<open>int\<close>.\<close>

definition digit_char :: "nat \<Rightarrow> char" where
  "digit_char n = ''0123456789'' ! (n mod 10)"

fun format_nat :: "nat \<Rightarrow> string" where
  "format_nat n = (if n < 10 then [digit_char n] else format_nat (n div 10) @ [digit_char n])"

declare format_nat.simps [simp del]

definition format_int :: "int \<Rightarrow> string" where
  "format_int i = (if i < 0 then CHR ''-'' # format_nat (nat (- i)) else format_nat (nat i))"

subsection \<open>\<open>url.URL.String\<close>\<close>

text \<open>
  \<open>buildURI\<close> fills the fields \<open>Scheme\<close>, \<open>Host\<close> and \<open>Path\<close> of a \<open>url.URL\<close> and
  renders it with \<open>String()\<close>.  The record has these three fields; every other field of
  the Go struct keeps its zero value (no opaque part, no user, no raw path, no query, no
  fragment), and \<open>url_String\<close> is the standard library's rendering of such a value:
  the scheme and a colon, \<open>//\<close> and the host with the bytes a host may not contain
  percent-escaped, then the escaped path, preceded by a slash when it lacks one.
\<close>

record url =
  Scheme :: string
  Host :: string
  Path :: string

datatype encoding = encodePath | encodeHost

definition in_range :: "char \<Rightarrow> char \<Rightarrow> char \<Rightarrow> bool" where
  "in_range lo hi c \<longleftrightarrow> lo \<le> c \<and> c \<le> hi"

definition alphanum :: "char \<Rightarrow> bool" where
  "alphanum c \<longleftrightarrow>
     in_range (CHR ''a'') (CHR ''z'') c \<or> in_range (CHR ''A'') (CHR ''Z'') c \<or>
     in_range (CHR ''0'') (CHR ''9'') c"

definition shouldEscape :: "char \<Rightarrow> encoding \<Rightarrow> bool" where
  "shouldEscape c mode \<longleftrightarrow>
     (if alphanum c then False
      else if mode = encodeHost \<and> c \<in> set ''!$&'()*+,;=:[]<>\"'' then False
      else if c \<in> set ''-_.~'' then False
      else if c \<in> set ''$&+,/:;=?@'' \<and> mode = encodePath then c = CHR ''?''
      else True)"

definition upperhex :: "nat \<Rightarrow> char" where
  "upperhex n = ''0123456789ABCDEF'' ! (n mod 16)"

fun escape :: "string \<Rightarrow> encoding \<Rightarrow> string" where
  "escape [] mode = []"
| "escape (c # cs) mode =
     (if shouldEscape c mode
      then CHR ''%'' # upperhex (of_char c div 16) # upperhex (of_char c) # escape cs mode
      else c # escape cs mode)"

definition EscapedPath :: "url \<Rightarrow> string" where
  "EscapedPath u = (if url.Path u = ''*'' then ''*'' else escape (url.Path u) encodePath)"

definition url_String :: "url \<Rightarrow> string" where
  "url_String u =
     (let head =
        (if url.Scheme u \<noteq> [] then url.Scheme u @ '':'' else []) @
        (if url.Scheme u \<noteq> [] \<or> url.Host u \<noteq> []
         then (if url.Host u \<noteq> [] \<or> url.Path u \<noteq> [] then ''//'' else []) @
              (if url.Host u \<noteq> [] then escape (url.Host u) encodeHost else [])
         else []);
        path = EscapedPath u;
        slash = (if path \<noteq> [] \<and> hd path \<noteq> CHR ''/'' \<and> url.Host u \<noteq> [] then ''/'' else []);
        dot = (if head @ slash = [] \<and> CHR '':'' \<in> set (takeWhile (\<lambda>c. c \<noteq> CHR ''/'') path)
               then ''./'' else [])
      in head @ slash @ dot @ path)"

section \<open>Configuration: \<open>internal/config.go\<close>\<close>

record tls =
  IgnoreInsecure :: bool

record endpoint =
  Host :: string
  API :: int
  WEB :: int
  TLS :: "tls option"

record config =
  ConnTimeout :: int
  PollInterval :: int
  Endpoints :: "endpoint list"
  TLSResolver :: "string option"

definition defaultPath :: string where
  "defaultPath = ''/''"

text \<open>\<open>buildURI\<close>: the URL value built by the composite literal and the assignment to
  \<open>uri.Scheme\<close>, then its rendering.\<close>

definition buildURI_url :: "endpoint \<Rightarrow> int \<Rightarrow> string \<Rightarrow> url" where
  "buildURI_url e port path =
     (let uri = \<lparr>Scheme = ''http'', Host = endpoint.Host e @ '':'' @ format_int port, Path = path\<rparr>
      in if endpoint.TLS e \<noteq> None then uri\<lparr>Scheme := ''https''\<rparr> else uri)"

definition buildURI :: "endpoint \<Rightarrow> int \<Rightarrow> string \<Rightarrow> string" where
  "buildURI e port path = url_String (buildURI_url e port path)"

section \<open>Routing documents\<close>

text \<open>
  The types of the package \<open>dynamic\<close> as far as \<open>internal/client.go\<close> reads or writes
  them.  A Go pointer is an \<open>option\<close> (\<open>None\<close> is \<open>nil\<close>); the maps of an HTTP
  configuration hold pointers, so a key can be present with a \<open>nil\<close> value.  Fields the
  code never touches keep their zero value and are left out.
\<close>

record server =
  URL :: string

record servers_load_balancer =
  Servers :: "server list"

record service =
  LoadBalancer :: "servers_load_balancer option"

record router_tls_config =
  CertResolver :: string

record router =
  Service :: string
  Rule :: string
  Middlewares :: "string list"
  TLS :: "router_tls_config option"

record redirect_scheme =
  Scheme :: string
  Permanent :: bool

record middleware =
  RedirectScheme :: "redirect_scheme option"

record http_configuration =
  Routers :: "string \<rightharpoonup> router option"
  Services :: "string \<rightharpoonup> service option"
  Middlewares :: "string \<rightharpoonup> middleware option"

record configuration =
  HTTP :: "http_configuration option"

text \<open>A dereference of a \<open>nil\<close> pointer panics; the functions below return the panic as
  a value.\<close>

datatype panic = NilPointerDereference

text \<open>
  Go visits the entries of a map in an unspecified order.  The order in which a
  \<open>range\<close> statement visits a map is a list of its entries, each key once.
\<close>

definition range_order :: "('k \<rightharpoonup> 'v) \<Rightarrow> ('k \<times> 'v) list \<Rightarrow> bool" where
  "range_order m kvs \<longleftrightarrow> distinct (map fst kvs) \<and> map_of kvs = m"

section \<open>The client: \<open>internal/client.go\<close>\<close>

text \<open>A \<open>Client\<close> embeds an \<open>http.Client\<close>, of which the model keeps whether its
  transport skips the verification of certificates.\<close>

record client =
  InsecureSkipVerify :: bool
  endpoint :: endpoint
  resolver :: "string option"

definition defaultRawPath :: string where
  "defaultRawPath = ''/api/rawdata''"

subsection \<open>\<open>prepareResponse\<close>\<close>

text \<open>The name under which a router and its service are emitted: the key up to its
  first \<open>@\<close>, a dash and the host of the endpoint.\<close>

definition derived_name :: "client \<Rightarrow> string \<Rightarrow> string" where
  "derived_name c key = hd (Split key CHR ''@'') @ ''-'' @ endpoint.Host (endpoint c)"

text \<open>The inner loop appends one server for every server of the source service.\<close>

primrec append_servers :: "client \<Rightarrow> server list \<Rightarrow> server list \<Rightarrow> server list" where
  "append_servers c [] servers = servers"
| "append_servers c (s # rest) servers =
     append_servers c rest
       (servers @ [\<lparr>URL = buildURI (endpoint c) (WEB (endpoint c)) defaultPath\<rparr>])"

definition empty_http :: http_configuration where
  "empty_http = \<lparr>Routers = Map.empty, Services = Map.empty, Middlewares = Map.empty\<rparr>"

definition http2https :: middleware where
  "http2https = \<lparr>RedirectScheme = Some \<lparr>Scheme = ''https'', Permanent = True\<rparr>\<rparr>"

text \<open>One iteration of the loop over the routers of the source document \<open>src\<close>, for the
  entry \<open>(key, item)\<close>, on the output accumulated so far.\<close>

definition loop_body ::
  "client \<Rightarrow> http_configuration \<Rightarrow> string \<Rightarrow> router option \<Rightarrow> configuration \<Rightarrow> panic + configuration"
where
  "loop_body c src key item output =
     (if HasSuffix key ''@internal'' then Inr output
      else
        let name = derived_name c key in
        (case Services src key of
           None \<Rightarrow> Inr output
         | Some service \<Rightarrow>
            let out0 = (case HTTP output of None \<Rightarrow> empty_http | Some h \<Rightarrow> h) in
            (case item of
               None \<Rightarrow> Inl NilPointerDereference
             | Some it \<Rightarrow>
                let out1 = out0\<lparr>Routers := (Routers out0)(name \<mapsto>
                             Some \<lparr>Service = name, Rule = Rule it, Middlewares = [], TLS = None\<rparr>)\<rparr> in
                (case service of
                   None \<Rightarrow> Inl NilPointerDereference
                 | Some svc \<Rightarrow>
                    (case LoadBalancer svc of
                       None \<Rightarrow> Inl NilPointerDereference
                     | Some lb \<Rightarrow>
                        let servers = append_servers c (Servers lb) [];
                            out2 = out1\<lparr>Services := (Services out1)(name \<mapsto>
                                     Some \<lparr>LoadBalancer = Some \<lparr>Servers = servers\<rparr>\<rparr>)\<rparr> in
                        (case resolver c of
                           None \<Rightarrow> Inr \<lparr>HTTP = Some out2\<rparr>
                         | Some certResolver \<Rightarrow>
                            (case Routers out2 name of
                               Some (Some plain) \<Rightarrow>
                                 let out3 = out2\<lparr>Routers := (Routers out2)(name \<mapsto>
                                              Some (plain\<lparr>router.Middlewares :=
                                                router.Middlewares plain @ [''http2https'']\<rparr>))\<rparr>;
                                     out4 = out3\<lparr>Routers := (Routers out3)(name @ ''-secure'' \<mapsto>
                                              Some \<lparr>Service = name, Rule = Rule it, Middlewares = [],
                                                    TLS = Some \<lparr>CertResolver = certResolver\<rparr>\<rparr>)\<rparr>;
                                     out5 = out4\<lparr>http_configuration.Middlewares :=
                                              (http_configuration.Middlewares out4)(''http2https'' \<mapsto>
                                                Some http2https)\<rparr>
                                 in Inr \<lparr>HTTP = Some out5\<rparr>
                             | _ \<Rightarrow> Inl NilPointerDereference)))))))"

text \<open>The loop over the routers, in the order \<open>visit\<close> in which \<open>range\<close> yields them;
  a panic ends it.\<close>

fun range_routers ::
  "client \<Rightarrow> http_configuration \<Rightarrow> (string \<times> router option) list \<Rightarrow> configuration \<Rightarrow> panic + configuration"
where
  "range_routers c src [] output = Inr output"
| "range_routers c src ((key, item) # rest) output =
     (case loop_body c src key item output of
        Inl p \<Rightarrow> Inl p
      | Inr output' \<Rightarrow> range_routers c src rest output')"

definition prepareResponse ::
  "client \<Rightarrow> (string \<times> router option) list \<Rightarrow> configuration \<Rightarrow> panic + configuration"
where
  "prepareResponse c visit res =
     (case HTTP res of
        None \<Rightarrow> Inl NilPointerDereference
      | Some src \<Rightarrow> range_routers c src visit \<lparr>HTTP = None\<rparr>)"

subsection \<open>\<open>httpCall\<close> and \<open>FetchRaw\<close>\<close>

text \<open>
  The network and the JSON decoder are parameters: \<open>NewRequest uri\<close> tells whether
  \<open>http.NewRequestWithContext\<close> accepts the URI, \<open>Do insecure uri\<close> is the outcome
  of the request (an error, or a body and whether closing it succeeds), and \<open>Decode\<close>
  is the outcome of decoding a body into the pointer \<open>result.HTTP\<close>.
\<close>

datatype do_result = DoError | DoResponse string bool

datatype decode_result = DecodeError | Decoded "http_configuration option"

datatype fetch_error =
    CouldNotPrepareRequest string
  | CouldNotMakeRequest string
  | CouldNotDecodeResponse string string
  | BodyCloseError
  | ErrEmptyResponse string

definition httpCall ::
  "(string \<Rightarrow> bool) \<Rightarrow> (bool \<Rightarrow> string \<Rightarrow> do_result) \<Rightarrow> (string \<Rightarrow> decode_result) \<Rightarrow>
   client \<Rightarrow> configuration option \<times> fetch_error option"
where
  "httpCall NewRequest Do Decode c =
     (let uri = buildURI (endpoint c) (API (endpoint c)) defaultRawPath in
      if \<not> NewRequest uri then (None, Some (CouldNotPrepareRequest uri))
      else
        case Do (InsecureSkipVerify c) uri of
          DoError \<Rightarrow> (None, Some (CouldNotMakeRequest uri))
        | DoResponse body closes \<Rightarrow>
            (case Decode body of
               DecodeError \<Rightarrow> (None, Some (CouldNotDecodeResponse uri body))
             | Decoded h \<Rightarrow>
                 (Some \<lparr>HTTP = h\<rparr>, if closes then None else Some BodyCloseError)))"

text \<open>\<open>FetchRaw\<close> returns the value it sends on the channel \<open>out\<close> and its error.\<close>

definition FetchRaw ::
  "(string \<Rightarrow> bool) \<Rightarrow> (bool \<Rightarrow> string \<Rightarrow> do_result) \<Rightarrow> (string \<Rightarrow> decode_result) \<Rightarrow>
   client \<Rightarrow> (string \<times> router option) list \<Rightarrow>
   panic + (configuration option \<times> fetch_error option)"
where
  "FetchRaw NewRequest Do Decode c visit =
     (case httpCall NewRequest Do Decode c of
        (_, Some err) \<Rightarrow> Inr (None, Some err)
      | (None, None) \<Rightarrow> Inl NilPointerDereference
      | (Some res, None) \<Rightarrow>
          (case HTTP res of
             None \<Rightarrow> Inl NilPointerDereference
           | Some h \<Rightarrow>
               if dom (Routers h) \<noteq> {} \<and> dom (Services h) \<noteq> {}
               then (case prepareResponse c visit res of
                       Inl p \<Rightarrow> Inl p
                     | Inr fragment \<Rightarrow> Inr (Some fragment, None))
               else Inr (None, Some (ErrEmptyResponse (endpoint.Host (endpoint c))))))"

section \<open>Client construction: \<open>PrepareClients\<close>\<close>

text \<open>
  Here \<open>Do n insecure uri\<close> is the outcome of the \<open>n\<close>-th request the function makes
  (counted from 0), so that the network may answer the same URI differently at
  different times.  An expired deadline is an error of \<open>Do\<close>.
\<close>

datatype connect_error =
    CouldNotPrepareProbe string
  | CouldNotCallProbe string
  | CouldNotCloseBody

fun probe_ports ::
  "(string \<Rightarrow> bool) \<Rightarrow> (nat \<Rightarrow> bool \<Rightarrow> string \<Rightarrow> do_result) \<Rightarrow> nat \<Rightarrow> bool \<Rightarrow> endpoint \<Rightarrow>
   int list \<Rightarrow> connect_error option"
where
  "probe_ports NewRequest Do n insecure e [] = None"
| "probe_ports NewRequest Do n insecure e (port # ports) =
     (let uri = buildURI e port defaultPath in
      if \<not> NewRequest uri then Some (CouldNotPrepareProbe uri)
      else
        case Do n insecure uri of
          DoError \<Rightarrow> Some (CouldNotCallProbe uri)
        | DoResponse body closes \<Rightarrow>
            if closes then probe_ports NewRequest Do (Suc n) insecure e ports
            else Some CouldNotCloseBody)"

definition skips_verification :: "endpoint \<Rightarrow> bool" where
  "skips_verification e = (case endpoint.TLS e of None \<Rightarrow> False | Some t \<Rightarrow> IgnoreInsecure t)"

fun range_endpoints ::
  "(string \<Rightarrow> bool) \<Rightarrow> (nat \<Rightarrow> bool \<Rightarrow> string \<Rightarrow> do_result) \<Rightarrow> nat \<Rightarrow> string option \<Rightarrow>
   endpoint list \<Rightarrow> client list \<Rightarrow> connect_error + client list"
where
  "range_endpoints NewRequest Do n r [] out = Inr out"
| "range_endpoints NewRequest Do n r (e # es) out =
     (case probe_ports NewRequest Do n (skips_verification e) e [API e, WEB e] of
        Some err \<Rightarrow> Inl err
      | None \<Rightarrow>
          range_endpoints NewRequest Do (n + 2) r es
            (out @ [\<lparr>InsecureSkipVerify = skips_verification e, endpoint = e, resolver = r\<rparr>]))"

definition PrepareClients ::
  "(string \<Rightarrow> bool) \<Rightarrow> (nat \<Rightarrow> bool \<Rightarrow> string \<Rightarrow> do_result) \<Rightarrow> config \<Rightarrow>
   connect_error + client list"
where
  "PrepareClients NewRequest Do c =
     range_endpoints NewRequest Do 0 (TLSResolver c) (Endpoints c) []"

section \<open>Notions used in the statements\<close>

text \<open>The three maps of a fragment; a fragment whose \<open>HTTP\<close> pointer is \<open>nil\<close> has no
  entries.\<close>

definition routers_of :: "configuration \<Rightarrow> (string \<rightharpoonup> router option)" where
  "routers_of out = (case HTTP out of None \<Rightarrow> Map.empty | Some h \<Rightarrow> Routers h)"

definition services_of :: "configuration \<Rightarrow> (string \<rightharpoonup> service option)" where
  "services_of out = (case HTTP out of None \<Rightarrow> Map.empty | Some h \<Rightarrow> Services h)"

definition middlewares_of :: "configuration \<Rightarrow> (string \<rightharpoonup> middleware option)" where
  "middlewares_of out =
     (case HTTP out of None \<Rightarrow> Map.empty | Some h \<Rightarrow> http_configuration.Middlewares h)"

text \<open>A router key survives the two \<open>continue\<close> statements of the loop when it does not
  end in \<open>@internal\<close> and the services of the source have an entry under the same key.\<close>

definition survives :: "http_configuration \<Rightarrow> string \<Rightarrow> bool" where
  "survives src key \<longleftrightarrow> \<not> HasSuffix key ''@internal'' \<and> Services src key \<noteq> None"

text \<open>The loop dereferences the router, the service and the load balancer of every
  surviving entry; the document is well formed for a visiting order when none of them is
  \<open>nil\<close>.\<close>

definition well_formed :: "http_configuration \<Rightarrow> (string \<times> router option) list \<Rightarrow> bool" where
  "well_formed src visit \<longleftrightarrow>
     (\<forall>(key, item) \<in> set visit. survives src key \<longrightarrow>
        (\<exists>it svc lb. item = Some it \<and> Services src key = Some (Some svc) \<and>
           LoadBalancer svc = Some lb))"

text \<open>The values the loop stores: the plain router, the router with TLS, the service.\<close>

definition plain_router :: "client \<Rightarrow> string \<Rightarrow> string \<Rightarrow> router" where
  "plain_router c name rule =
     \<lparr>Service = name, Rule = rule,
      Middlewares = (case resolver c of None \<Rightarrow> [] | Some r \<Rightarrow> [''http2https'']), TLS = None\<rparr>"

definition secure_router :: "string \<Rightarrow> string \<Rightarrow> string \<Rightarrow> router" where
  "secure_router name rule r =
     \<lparr>Service = name, Rule = rule, Middlewares = [], TLS = Some \<lparr>CertResolver = r\<rparr>\<rparr>"

definition emitted_service :: "client \<Rightarrow> nat \<Rightarrow> service" where
  "emitted_service c n =
     \<lparr>LoadBalancer = Some \<lparr>Servers =
        replicate n \<lparr>URL = buildURI (endpoint c) (WEB (endpoint c)) defaultPath\<rparr>\<rparr>\<rparr>"

text \<open>Every entry of the output stems from a surviving entry of the source among \<open>A\<close>,
  and every router of the output refers to a service of the output.\<close>

definition provenance ::
  "client \<Rightarrow> http_configuration \<Rightarrow> (string \<times> router option) set \<Rightarrow> configuration \<Rightarrow> bool"
where
  "provenance c src A out \<longleftrightarrow>
     (\<forall>n rt. routers_of out n = Some rt \<longrightarrow>
        (\<exists>key it. (key, Some it) \<in> A \<and> survives src key \<and>
           (n = derived_name c key \<and> rt = Some (plain_router c n (Rule it)) \<or>
            (\<exists>r. resolver c = Some r \<and> n = derived_name c key @ ''-secure'' \<and>
                 rt = Some (secure_router (derived_name c key) (Rule it) r))))) \<and>
     (\<forall>n s. services_of out n = Some s \<longrightarrow>
        (\<exists>key item svc lb. (key, item) \<in> A \<and> survives src key \<and> n = derived_name c key \<and>
           Services src key = Some (Some svc) \<and> LoadBalancer svc = Some lb \<and>
           s = Some (emitted_service c (length (Servers lb))))) \<and>
     (\<forall>n rt. routers_of out n = Some (Some rt) \<longrightarrow> services_of out (Service rt) \<noteq> None)"

text \<open>Every router without TLS has its twin with TLS under its key followed by
  \<open>-secure\<close>, with the same rule.\<close>

definition paired :: "string \<Rightarrow> configuration \<Rightarrow> bool" where
  "paired r out \<longleftrightarrow>
     (\<forall>n rt. routers_of out n = Some (Some rt) \<and> router.TLS rt = None \<longrightarrow>
        routers_of out (n @ ''-secure'') = Some (Some (secure_router n (Rule rt) r)))"

text \<open>The document without the routers whose key satisfies \<open>skip\<close>.\<close>

definition without_routers :: "(string \<Rightarrow> bool) \<Rightarrow> configuration \<Rightarrow> configuration" where
  "without_routers skip res =
     \<lparr>HTTP = map_option (\<lambda>h. h\<lparr>Routers := Routers h |` {key. \<not> skip key}\<rparr>) (HTTP res)\<rparr>"

subsection \<open>Example documents\<close>

text \<open>The endpoint \<open>a.example\<close> with the ports 8080 and 8081 and no TLS, a client
  without and one with a certificate resolver, and a document with the router
  \<open>web@docker\<close>, its service with two servers, and the internal router
  \<open>api@internal\<close>.\<close>

definition example_endpoint :: endpoint where
  "example_endpoint = \<lparr>Host = ''a.example'', API = 8080, WEB = 8081, TLS = None\<rparr>"

definition plain_client :: client where
  "plain_client = \<lparr>InsecureSkipVerify = False, endpoint = example_endpoint, resolver = None\<rparr>"

definition tls_client :: client where
  "tls_client =
     \<lparr>InsecureSkipVerify = False, endpoint = example_endpoint, resolver = Some ''myresolver''\<rparr>"

definition web_router :: router where
  "web_router = \<lparr>Service = ''web'', Rule = ''Host(a)'', Middlewares = [], TLS = None\<rparr>"

definition api_router :: router where
  "api_router = \<lparr>Service = ''api'', Rule = ''PathPrefix(/api)'', Middlewares = [], TLS = None\<rparr>"

definition web_service :: service where
  "web_service =
     \<lparr>LoadBalancer = Some \<lparr>Servers = [\<lparr>URL = ''http://10.0.0.1:80''\<rparr>, \<lparr>URL = ''http://10.0.0.2:80''\<rparr>]\<rparr>\<rparr>"

definition example_http :: http_configuration where
  "example_http =
     \<lparr>Routers = [''api@internal'' \<mapsto> Some api_router, ''web@docker'' \<mapsto> Some web_router],
      Services = [''web@docker'' \<mapsto> Some web_service],
      Middlewares = Map.empty\<rparr>"

definition example_visit :: "(string \<times> router option) list" where
  "example_visit = [(''web@docker'', Some web_router), (''api@internal'', Some api_router)]"

definition internal_http :: http_configuration where
  "internal_http =
     \<lparr>Routers = [''api@internal'' \<mapsto> Some api_router],
      Services = [''web@docker'' \<mapsto> Some web_service],
      Middlewares = Map.empty\<rparr>"


definition dangling_http :: http_configuration where
  "dangling_http =
     \<lparr>Routers = [''router@x'' \<mapsto> Some web_router],
      Services = [''other@x'' \<mapsto> Some web_service],
      Middlewares = Map.empty\<rparr>"


definition always_accept :: "string \<Rightarrow> bool" where
  "always_accept uri = True"

definition answer_with :: "string \<Rightarrow> bool \<Rightarrow> string \<Rightarrow> do_result" where
  "answer_with body insecure uri = DoResponse body True"

definition decode_as :: "decode_result \<Rightarrow> string \<Rightarrow> decode_result" where
  "decode_as result body = result"

definition probe_succeeds ::
  "(string \<Rightarrow> bool) \<Rightarrow> (nat \<Rightarrow> bool \<Rightarrow> string \<Rightarrow> do_result) \<Rightarrow> nat \<Rightarrow> endpoint \<Rightarrow> int \<Rightarrow> bool"
where
  "probe_succeeds NewRequest Do n e port \<longleftrightarrow>
     NewRequest (buildURI e port defaultPath) \<and>
     (case Do n (skips_verification e) (buildURI e port defaultPath) of
        DoError \<Rightarrow> False
      | DoResponse body closes \<Rightarrow> closes)"

definition all_probes_succeed ::
  "(string \<Rightarrow> bool) \<Rightarrow> (nat \<Rightarrow> bool \<Rightarrow> string \<Rightarrow> do_result) \<Rightarrow> nat \<Rightarrow> endpoint list \<Rightarrow> bool"
where
  "all_probes_succeed NewRequest Do n es \<longleftrightarrow>
     (\<forall>i < length es.
        probe_succeeds NewRequest Do (n + 2 * i) (es ! i) (API (es ! i)) \<and>
        probe_succeeds NewRequest Do (n + 2 * i + 1) (es ! i) (WEB (es ! i)))"

definition insecure_endpoint :: endpoint where
  "insecure_endpoint =
     \<lparr>Host = ''b.example'', API = 9090, WEB = 9091, TLS = Some \<lparr>IgnoreInsecure = True\<rparr>\<rparr>"

definition example_config :: config where
  "example_config =
     \<lparr>ConnTimeout = 5, PollInterval = 10, Endpoints = [example_endpoint, insecure_endpoint],
      TLSResolver = Some ''myresolver''\<rparr>"

definition answer_all :: "nat \<Rightarrow> bool \<Rightarrow> string \<Rightarrow> do_result" where
  "answer_all n insecure uri = DoResponse [] True"

definition fail_at :: "nat \<Rightarrow> nat \<Rightarrow> bool \<Rightarrow> string \<Rightarrow> do_result" where
  "fail_at k n insecure uri = (if n = k then DoError else DoResponse [] True)"

definition docker_router :: router where
  "docker_router = \<lparr>Service = ''web'', Rule = ''Host(a)'', Middlewares = [], TLS = None\<rparr>"

definition file_router :: router where
  "file_router = \<lparr>Service = ''web'', Rule = ''Host(b)'', Middlewares = [], TLS = None\<rparr>"

definition one_server :: service where
  "one_server = \<lparr>LoadBalancer = Some \<lparr>Servers = [\<lparr>URL = ''http://10.0.0.3:80''\<rparr>]\<rparr>\<rparr>"

definition colliding_http :: http_configuration where
  "colliding_http =
     \<lparr>Routers = [''web@docker'' \<mapsto> Some docker_router, ''web@file'' \<mapsto> Some file_router],
      Services = [''web@docker'' \<mapsto> Some web_service, ''web@file'' \<mapsto> Some one_server],
      Middlewares = Map.empty\<rparr>"

definition docker_last :: "(string \<times> router option) list" where
  "docker_last = [(''web@file'', Some file_router), (''web@docker'', Some docker_router)]"

definition file_last :: "(string \<times> router option) list" where
  "file_last = [(''web@docker'', Some docker_router), (''web@file'', Some file_router)]"

definition spaced_endpoint :: endpoint where
  "spaced_endpoint = \<lparr>Host = ''a b'', API = 8080, WEB = 8081, TLS = None\<rparr>"

definition secure_host_endpoint :: endpoint where
  "secure_host_endpoint = \<lparr>Host = ''secure'', API = 8080, WEB = 8081, TLS = None\<rparr>"

definition secure_host_client :: client where
  "secure_host_client =
     \<lparr>InsecureSkipVerify = False, endpoint = secure_host_endpoint,
      resolver = Some ''myresolver''\<rparr>"

definition secure_host_plain_client :: client where
  "secure_host_plain_client =
     \<lparr>InsecureSkipVerify = False, endpoint = secure_host_endpoint, resolver = None\<rparr>"

definition twin_http :: http_configuration where
  "twin_http =
     \<lparr>Routers = [''a@x'' \<mapsto> Some docker_router, ''a-secure@x'' \<mapsto> Some file_router],
      Services = [''a@x'' \<mapsto> Some one_server, ''a-secure@x'' \<mapsto> Some one_server],
      Middlewares = Map.empty\<rparr>"

definition plain_key_last :: "(string \<times> router option) list" where
  "plain_key_last = [(''a-secure@x'', Some file_router), (''a@x'', Some docker_router)]"

definition secure_key_last :: "(string \<times> router option) list" where
  "secure_key_last = [(''a@x'', Some docker_router), (''a-secure@x'', Some file_router)]"

definition router_at :: "string \<Rightarrow> panic + configuration \<Rightarrow> router option option" where
  "router_at n result = (case result of Inl p \<Rightarrow> None | Inr out \<Rightarrow> routers_of out n)"

definition service_at :: "string \<Rightarrow> panic + configuration \<Rightarrow> service option option" where
  "service_at n result = (case result of Inl p \<Rightarrow> None | Inr out \<Rightarrow> services_of out n)"

definition key_endings :: "client \<Rightarrow> string list" where
  "key_endings c =
     (''-'' @ endpoint.Host (endpoint c)) #
     (case resolver c of
        None \<Rightarrow> []
      | Some r \<Rightarrow> [''-'' @ endpoint.Host (endpoint c) @ ''-secure''])"

definition b_client :: client where
  "b_client =
     \<lparr>InsecureSkipVerify = False,
      endpoint = \<lparr>Host = ''b'', API = 8080, WEB = 8081, TLS = None\<rparr>, resolver = None\<rparr>"

definition ab_client :: client where
  "ab_client =
     \<lparr>InsecureSkipVerify = False,
      endpoint = \<lparr>Host = ''a-b'', API = 8080, WEB = 8081, TLS = None\<rparr>, resolver = None\<rparr>"

definition xa_http :: http_configuration where
  "xa_http =
     \<lparr>Routers = [''x-a@d'' \<mapsto> Some docker_router],
      Services = [''x-a@d'' \<mapsto> Some one_server],
      Middlewares = Map.empty\<rparr>"

definition x_http :: http_configuration where
  "x_http =
     \<lparr>Routers = [''x@d'' \<mapsto> Some file_router],
      Services = [''x@d'' \<mapsto> Some one_server],
      Middlewares = Map.empty\<rparr>"

definition b_example_client :: client where
  "b_example_client =
     \<lparr>InsecureSkipVerify = True, endpoint = insecure_endpoint, resolver = Some ''myresolver''\<rparr>"

section \<open>Basic facts\<close>

lemma HasSuffix_iff_suffix: "HasSuffix s suf \<longleftrightarrow> suffix suf s"
proof
  assume "HasSuffix s suf"
  then have "s = take (length s - length suf) s @ suf"
    by (metis HasSuffix_def append_take_drop_id)
  then show "suffix suf s" by (metis suffixI)
next
  assume "suffix suf s"
  then obtain zs where "s = zs @ suf" by (auto simp: suffix_def)
  then show "HasSuffix s suf" by (simp add: HasSuffix_def)
qed

lemma Split_nonempty: "Split s sep \<noteq> []"
  by (induction s) (auto split: list.splits)

lemma hd_Split: "hd (Split s sep) = takeWhile (\<lambda>ch. ch \<noteq> sep) s"
  by (induction s) (auto split: list.splits simp: Split_nonempty)

lemma append_servers_replicate:
  "append_servers c xs acc =
     acc @ replicate (length xs) \<lparr>URL = buildURI (endpoint c) (WEB (endpoint c)) defaultPath\<rparr>"
  by (induction xs arbitrary: acc) (simp_all add: replicate_app_Cons_same)

lemma loop_body_skip:
  "\<not> survives src key \<Longrightarrow> loop_body c src key item output = Inr output"
  by (auto simp: survives_def loop_body_def)

lemma loop_body_emit:
  assumes "survives src key" "item = Some it" "Services src key = Some (Some svc)"
    "LoadBalancer svc = Some lb"
  shows "\<exists>out'. loop_body c src key item output = Inr out' \<and> HTTP out' \<noteq> None \<and>
     routers_of out' =
       (case resolver c of
          None \<Rightarrow> (routers_of output)(derived_name c key \<mapsto> Some (plain_router c (derived_name c key) (Rule it)))
        | Some r \<Rightarrow> (routers_of output)(derived_name c key \<mapsto> Some (plain_router c (derived_name c key) (Rule it)),
             derived_name c key @ ''-secure'' \<mapsto> Some (secure_router (derived_name c key) (Rule it) r))) \<and>
     services_of out' =
       (services_of output)(derived_name c key \<mapsto> Some (emitted_service c (length (Servers lb)))) \<and>
     middlewares_of out' =
       (case resolver c of None \<Rightarrow> middlewares_of output
        | Some r \<Rightarrow> (middlewares_of output)(''http2https'' \<mapsto> Some http2https))"
  using assms
  by (cases "HTTP output"; cases "resolver c")
     (simp_all add: survives_def loop_body_def Let_def routers_of_def services_of_def
       middlewares_of_def plain_router_def secure_router_def emitted_service_def
       append_servers_replicate empty_http_def)

lemma loop_body_Inr:
  assumes "loop_body c src key item output = Inr out'" "survives src key"
  shows "\<exists>it svc lb. item = Some it \<and> Services src key = Some (Some svc) \<and> LoadBalancer svc = Some lb"
  using assms
  by (auto simp: survives_def loop_body_def Let_def split: option.splits if_splits)

lemma range_routers_returns:
  "well_formed src visit \<Longrightarrow> \<exists>out. range_routers c src visit acc = Inr out"
proof (induction visit arbitrary: acc)
  case Nil
  then show ?case by simp
next
  case (Cons kv visit)
  obtain key item where kv: "kv = (key, item)" by (cases kv)
  from Cons.prems have wf: "well_formed src visit"
    by (simp add: well_formed_def)
  show ?case
  proof (cases "survives src key")
    case False
    then show ?thesis using Cons.IH [OF wf] kv by (simp add: loop_body_skip)
  next
    case True
    with Cons.prems kv obtain it svc lb where
      "item = Some it" "Services src key = Some (Some svc)" "LoadBalancer svc = Some lb"
      by (auto simp: well_formed_def)
    from loop_body_emit [OF True this, of c acc] obtain out' where
      "loop_body c src key item acc = Inr out'" by blast
    then show ?thesis using Cons.IH [OF wf, of out'] kv by simp
  qed
qed

lemma range_routers_well_formed:
  "range_routers c src visit acc = Inr out \<Longrightarrow> well_formed src visit"
proof (induction visit arbitrary: acc)
  case Nil
  then show ?case by (simp add: well_formed_def)
next
  case (Cons kv visit)
  obtain key item where kv: "kv = (key, item)" by (cases kv)
  from Cons.prems kv obtain out' where
    step: "loop_body c src key item acc = Inr out'" and
    rest: "range_routers c src visit out' = Inr out"
    by (auto split: sum.splits)
  from Cons.IH [OF rest] loop_body_Inr [OF step] kv
  show ?case by (auto simp: well_formed_def)
qed

lemma range_routers_invariant:
  assumes "range_routers c src visit acc = Inr out" and "I acc"
    and "\<And>key item x y. (key, item) \<in> set visit \<Longrightarrow> I x \<Longrightarrow>
           loop_body c src key item x = Inr y \<Longrightarrow> I y"
  shows "I out"
  using assms
proof (induction visit arbitrary: acc)
  case Nil
  then show ?case by simp
next
  case (Cons kv visit)
  obtain key item where kv: "kv = (key, item)" by (cases kv)
  from Cons.prems(1) kv obtain out' where
    step: "loop_body c src key item acc = Inr out'" and
    rest: "range_routers c src visit out' = Inr out"
    by (auto split: sum.splits)
  have "I out'" using Cons.prems(3) [of key item acc out'] kv step Cons.prems(2) by simp
  moreover have "\<And>key item x y. (key, item) \<in> set visit \<Longrightarrow> I x \<Longrightarrow>
           loop_body c src key item x = Inr y \<Longrightarrow> I y"
    using Cons.prems(3) by (meson list.set_intros(2))
  ultimately show ?case using Cons.IH [OF rest] by blast
qed

lemma range_routers_filter:
  assumes "\<forall>(key, item) \<in> set visit. \<not> P key \<longrightarrow> \<not> survives src key"
  shows "range_routers c src (filter (\<lambda>(key, item). P key) visit) acc =
         range_routers c src visit acc"
  using assms
proof (induction visit arbitrary: acc)
  case Nil
  then show ?case by simp
next
  case (Cons kv visit)
  obtain key item where kv: "kv = (key, item)" by (cases kv)
  show ?case
  proof (cases "P key")
    case True
    then show ?thesis using Cons kv by (simp split: sum.splits)
  next
    case False
    with Cons.prems kv have "\<not> survives src key" by simp
    then show ?thesis using Cons kv False by (simp add: loop_body_skip)
  qed
qed

lemma map_of_filter_keys:
  "map_of (filter (\<lambda>(key, item). P key) kvs) = map_of kvs |` {key. P key}"
  by (induction kvs) (auto simp: restrict_map_def fun_eq_iff)

lemma range_order_filter:
  "range_order m kvs \<Longrightarrow> range_order (m |` {key. P key}) (filter (\<lambda>(key, item). P key) kvs)"
  by (auto simp: range_order_def map_of_filter_keys distinct_map_filter)

lemma loop_body_result:
  assumes "loop_body c src key item acc = Inr out'"
  shows "(\<not> survives src key \<and> out' = acc) \<or>
    (survives src key \<and>
     (\<exists>it svc lb. item = Some it \<and> Services src key = Some (Some svc) \<and>
        LoadBalancer svc = Some lb \<and> HTTP out' \<noteq> None \<and>
        routers_of out' =
          (case resolver c of
             None \<Rightarrow> (routers_of acc)(derived_name c key \<mapsto>
                        Some (plain_router c (derived_name c key) (Rule it)))
           | Some r \<Rightarrow> (routers_of acc)(derived_name c key \<mapsto>
                        Some (plain_router c (derived_name c key) (Rule it)),
                      derived_name c key @ ''-secure'' \<mapsto>
                        Some (secure_router (derived_name c key) (Rule it) r))) \<and>
        services_of out' =
          (services_of acc)(derived_name c key \<mapsto>
             Some (emitted_service c (length (Servers lb)))) \<and>
        middlewares_of out' =
          (case resolver c of None \<Rightarrow> middlewares_of acc
           | Some r \<Rightarrow> (middlewares_of acc)(''http2https'' \<mapsto> Some http2https))))"
proof (cases "survives src key")
  case False
  then show ?thesis using assms by (simp add: loop_body_skip)
next
  case True
  from loop_body_Inr [OF assms True] obtain it svc lb where
    f: "item = Some it" "Services src key = Some (Some svc)" "LoadBalancer svc = Some lb"
    by blast
  from loop_body_emit [OF True f, of c acc] assms True f show ?thesis
    by auto
qed

lemma provenance_init: "provenance c src A \<lparr>HTTP = None\<rparr>"
  by (simp add: provenance_def routers_of_def services_of_def)

lemma provenance_step:
  assumes inv: "provenance c src A acc" and step: "loop_body c src key item acc = Inr out'"
    and mem: "(key, item) \<in> A"
  shows "provenance c src A out'"
proof -
  from loop_body_result [OF step] show ?thesis
  proof (elim disjE conjE exE)
    assume "out' = acc"
    then show ?thesis using inv by simp
  next
    fix it svc lb
    assume s: "survives src key" and f: "item = Some it" "Services src key = Some (Some svc)"
      "LoadBalancer svc = Some lb"
      and R: "routers_of out' =
          (case resolver c of
             None \<Rightarrow> (routers_of acc)(derived_name c key \<mapsto>
                        Some (plain_router c (derived_name c key) (Rule it)))
           | Some r \<Rightarrow> (routers_of acc)(derived_name c key \<mapsto>
                        Some (plain_router c (derived_name c key) (Rule it)),
                      derived_name c key @ ''-secure'' \<mapsto>
                        Some (secure_router (derived_name c key) (Rule it) r)))"
      and S: "services_of out' =
          (services_of acc)(derived_name c key \<mapsto>
             Some (emitted_service c (length (Servers lb))))"
    have memit: "(key, Some it) \<in> A" using mem f by simp
    have r1: "\<exists>key it. (key, Some it) \<in> A \<and> survives src key \<and>
           (n = derived_name c key \<and> rt = Some (plain_router c n (Rule it)) \<or>
            (\<exists>r. resolver c = Some r \<and> n = derived_name c key @ ''-secure'' \<and>
                 rt = Some (secure_router (derived_name c key) (Rule it) r)))"
      if "routers_of out' n = Some rt" for n rt
    proof (cases "n = derived_name c key \<or> (resolver c \<noteq> None \<and> n = derived_name c key @ ''-secure'')")
      case True
      then show ?thesis using that R s memit
        by (cases "resolver c") (auto split: if_splits)
    next
      case False
      then have "routers_of acc n = Some rt" using that R
        by (cases "resolver c") (auto split: if_splits)
      then show ?thesis using inv by (simp add: provenance_def)
    qed
    have r2: "\<exists>key item svc lb. (key, item) \<in> A \<and> survives src key \<and> n = derived_name c key \<and>
           Services src key = Some (Some svc) \<and> LoadBalancer svc = Some lb \<and>
           s = Some (emitted_service c (length (Servers lb)))"
      if "services_of out' n = Some s" for n s
    proof (cases "n = derived_name c key")
      case True
      then show ?thesis using that S s mem f by auto
    next
      case False
      then have "services_of acc n = Some s" using that S by simp
      then show ?thesis using inv by (simp add: provenance_def)
    qed
    have r3: "services_of out' (Service rt) \<noteq> None"
      if "routers_of out' n = Some (Some rt)" for n rt
    proof (cases "n = derived_name c key \<or> (resolver c \<noteq> None \<and> n = derived_name c key @ ''-secure'')")
      case True
      then have "Service rt = derived_name c key" using that R
        by (cases "resolver c") (auto simp: plain_router_def secure_router_def split: if_splits)
      then show ?thesis using S by simp
    next
      case False
      then have "routers_of acc n = Some (Some rt)" using that R
        by (cases "resolver c") (auto split: if_splits)
      then have "services_of acc (Service rt) \<noteq> None" using inv by (simp add: provenance_def)
      then show ?thesis using S by simp
    qed
    show ?thesis unfolding provenance_def using r1 r2 r3 by blast
  qed
qed

lemma provenance_loop:
  assumes "range_routers c src visit \<lparr>HTTP = None\<rparr> = Inr out"
  shows "provenance c src (set visit) out"
  using assms provenance_init
  by (rule range_routers_invariant) (rule provenance_step)

lemma loop_body_keeps:
  assumes "loop_body c src key item acc = Inr out'"
  shows "(routers_of acc n \<noteq> None \<longrightarrow> routers_of out' n \<noteq> None) \<and>
         (services_of acc n \<noteq> None \<longrightarrow> services_of out' n \<noteq> None)"
  using loop_body_result [OF assms]
  by (cases "resolver c") auto

lemma range_routers_keeps_router:
  assumes "range_routers c src visit acc = Inr out" "routers_of acc n \<noteq> None"
  shows "routers_of out n \<noteq> None"
  using assms
  by (rule range_routers_invariant) (simp add: loop_body_keeps)

lemma range_routers_keeps_service:
  assumes "range_routers c src visit acc = Inr out" "services_of acc n \<noteq> None"
  shows "services_of out n \<noteq> None"
  using assms
  by (rule range_routers_invariant) (simp add: loop_body_keeps)

lemma loop_body_present:
  assumes "loop_body c src key item acc = Inr out'" "survives src key"
  shows "routers_of out' (derived_name c key) \<noteq> None \<and>
         services_of out' (derived_name c key) \<noteq> None \<and>
         (resolver c \<noteq> None \<longrightarrow> routers_of out' (derived_name c key @ ''-secure'') \<noteq> None)"
  using loop_body_result [OF assms(1)] assms(2)
  by (cases "resolver c") auto

lemma range_routers_present:
  assumes "range_routers c src visit acc = Inr out" "(key, item) \<in> set visit" "survives src key"
  shows "routers_of out (derived_name c key) \<noteq> None \<and>
         services_of out (derived_name c key) \<noteq> None \<and>
         (resolver c \<noteq> None \<longrightarrow> routers_of out (derived_name c key @ ''-secure'') \<noteq> None)"
  using assms
proof (induction visit arbitrary: acc)
  case Nil
  then show ?case by simp
next
  case (Cons kv visit)
  obtain k i where kv: "kv = (k, i)" by (cases kv)
  from Cons.prems(1) kv obtain out' where
    step: "loop_body c src k i acc = Inr out'" and
    rest: "range_routers c src visit out' = Inr out"
    by (auto split: sum.splits)
  show ?case
  proof (cases "(key, item) \<in> set visit")
    case True
    then show ?thesis using Cons.IH [OF rest] Cons.prems(3) by simp
  next
    case False
    with Cons.prems(2) kv have "k = key" "i = item" by auto
    with loop_body_present [OF step] Cons.prems(3)
    show ?thesis
      using range_routers_keeps_router [OF rest] range_routers_keeps_service [OF rest]
      by blast
  qed
qed

lemma range_routers_middlewares:
  assumes "range_routers c src visit acc = Inr out"
    and "middlewares_of acc = Map.empty \<or> middlewares_of acc = [''http2https'' \<mapsto> Some http2https]"
  shows "middlewares_of out =
     (if resolver c \<noteq> None \<and> (\<exists>(key, item) \<in> set visit. survives src key)
      then [''http2https'' \<mapsto> Some http2https] else middlewares_of acc)"
  using assms
proof (induction visit arbitrary: acc)
  case Nil
  then show ?case by simp
next
  case (Cons kv visit)
  obtain k i where kv: "kv = (k, i)" by (cases kv)
  from Cons.prems(1) kv obtain out' where
    step: "loop_body c src k i acc = Inr out'" and
    rest: "range_routers c src visit out' = Inr out"
    by (auto split: sum.splits)
  from loop_body_result [OF step]
  have m: "middlewares_of out' =
     (if resolver c \<noteq> None \<and> survives src k
      then [''http2https'' \<mapsto> Some http2https] else middlewares_of acc)"
    using Cons.prems(2) by (cases "resolver c") auto
  then have "middlewares_of out' = Map.empty \<or>
             middlewares_of out' = [''http2https'' \<mapsto> Some http2https]"
    using Cons.prems(2) by auto
  from Cons.IH [OF rest this] m kv show ?case by auto
qed

lemma dash_host_not_secure:
  assumes "\<not> suffix ''-secure'' (''-'' @ h)"
  shows "\<not> suffix ''-secure'' (b @ ''-'' @ h)"
proof
  assume a: "suffix ''-secure'' (b @ ''-'' @ h)"
  have "suffix (''-'' @ h) (b @ ''-'' @ h)" by (simp add: suffix_def)
  with a have "suffix ''-secure'' (''-'' @ h) \<or> suffix (''-'' @ h) ''-secure''"
    using suffix_same_cases by blast
  with assms have "suffix (''-'' @ h) ''-secure''" by simp
  then obtain zs where zs: "''-secure'' = zs @ ''-'' @ h" by (auto simp: suffix_def)
  show False
  proof (cases zs)
    case Nil
    with zs assms show False by simp
  next
    case (Cons a zs')
    with zs have "''secure'' = zs' @ ''-'' @ h" by simp
    then have "CHR ''-'' \<in> set ''secure''" by (metis append_Cons in_set_conv_decomp)
    then show False by simp
  qed
qed

lemma derived_name_not_secure:
  "\<not> suffix ''-secure'' (''-'' @ endpoint.Host (endpoint c)) \<Longrightarrow>
   \<not> suffix ''-secure'' (derived_name c key)"
  unfolding derived_name_def by (rule dash_host_not_secure)

lemma derived_name_suffix: "suffix (''-'' @ endpoint.Host (endpoint c)) (derived_name c key)"
  by (simp add: derived_name_def suffix_def)

lemma paired_step:
  assumes H: "\<not> suffix ''-secure'' (''-'' @ endpoint.Host (endpoint c))"
    and r: "resolver c = Some r"
    and inv: "paired r acc" and step: "loop_body c src key item acc = Inr out'"
  shows "paired r out'"
proof -
  from loop_body_result [OF step] show ?thesis
  proof (elim disjE conjE exE)
    assume "out' = acc"
    then show ?thesis using inv by simp
  next
    fix it svc lb
    assume "routers_of out' =
          (case resolver c of
             None \<Rightarrow> (routers_of acc)(derived_name c key \<mapsto>
                        Some (plain_router c (derived_name c key) (Rule it)))
           | Some r \<Rightarrow> (routers_of acc)(derived_name c key \<mapsto>
                        Some (plain_router c (derived_name c key) (Rule it)),
                      derived_name c key @ ''-secure'' \<mapsto>
                        Some (secure_router (derived_name c key) (Rule it) r)))"
    then have R: "routers_of out' = (routers_of acc)(derived_name c key \<mapsto>
                        Some (plain_router c (derived_name c key) (Rule it)),
                      derived_name c key @ ''-secure'' \<mapsto>
                        Some (secure_router (derived_name c key) (Rule it) r))"
      using r by simp
    have ns: "n @ ''-secure'' \<noteq> derived_name c key" for n
      using derived_name_not_secure [OF H, of key] by (metis suffixI)
    have "routers_of out' (n @ ''-secure'') = Some (Some (secure_router n (Rule rt) r))"
      if a: "routers_of out' n = Some (Some rt)" and t: "router.TLS rt = None" for n rt
    proof (cases "n = derived_name c key")
      case True
      then show ?thesis using a R by (auto simp: plain_router_def split: if_splits)
    next
      case False
      have "n \<noteq> derived_name c key @ ''-secure''"
        using a t R by (auto simp: secure_router_def)
      with False a R have "routers_of acc n = Some (Some rt)" by simp
      with inv t have "routers_of acc (n @ ''-secure'') = Some (Some (secure_router n (Rule rt) r))"
        by (simp add: paired_def)
      then show ?thesis using R False ns by simp
    qed
    then show ?thesis by (simp add: paired_def)
  qed
qed

lemma paired_loop:
  assumes H: "\<not> suffix ''-secure'' (''-'' @ endpoint.Host (endpoint c))"
    and r: "resolver c = Some r"
    and run: "range_routers c src visit \<lparr>HTTP = None\<rparr> = Inr out"
  shows "paired r out"
proof -
  have "paired r \<lparr>HTTP = None\<rparr>" by (simp add: paired_def routers_of_def)
  with run show ?thesis
    by (rule range_routers_invariant) (rule paired_step [OF H r])
qed

lemma range_order_keys: "range_order m kvs \<Longrightarrow> fst ` set kvs = dom m"
  by (metis range_order_def dom_map_of_conv_image_fst)

lemma range_order_lookup: "range_order m kvs \<Longrightarrow> (k, v) \<in> set kvs \<longleftrightarrow> m k = Some v"
  by (auto simp: range_order_def)

lemma loop_body_services:
  "Services src' = Services src \<Longrightarrow>
   loop_body c src' key item acc = loop_body c src key item acc"
  unfolding loop_body_def by (simp only:)

lemma prepareResponse_without:
  assumes "HTTP res = Some h" "\<forall>(key, item) \<in> set visit. skip key \<longrightarrow> \<not> survives h key"
  shows "prepareResponse c (filter (\<lambda>(key, item). \<not> skip key) visit) (without_routers skip res) =
         prepareResponse c visit res"
proof -
  have "range_routers c (h\<lparr>Routers := Routers h |` {key. \<not> skip key}\<rparr>) xs acc =
        range_routers c h xs acc" for xs acc
  proof (induction xs arbitrary: acc)
    case Nil
    then show ?case by simp
  next
    case (Cons kv xs)
    obtain k i where "kv = (k, i)" by (cases kv)
    then show ?case using Cons
      by (simp add: loop_body_services [of "h\<lparr>Routers := Routers h |` {key. \<not> skip key}\<rparr>" h]
            split: sum.splits)
  qed
  then show ?thesis
    using assms range_routers_filter [of visit "\<lambda>key. \<not> skip key" h c]
    by (simp add: prepareResponse_def without_routers_def)
qed

lemma range_order_without:
  assumes "HTTP res = Some h" "range_order (Routers h) visit"
  shows "\<exists>h'. HTTP (without_routers skip res) = Some h' \<and> Services h' = Services h \<and>
           dom (Routers h') = {key \<in> dom (Routers h). \<not> skip key} \<and>
           range_order (Routers h') (filter (\<lambda>(key, item). \<not> skip key) visit)"
  using assms range_order_filter [of "Routers h" visit "\<lambda>key. \<not> skip key"]
  by (auto simp: without_routers_def restrict_map_def dom_def split: if_splits)

lemma range_routers_none_survive:
  "\<forall>(key, item) \<in> set visit. \<not> survives src key \<Longrightarrow> range_routers c src visit acc = Inr acc"
  by (induction visit arbitrary: acc) (auto simp: loop_body_skip)

lemma FetchRaw_decoded:
  assumes "httpCall NR Do Dec c = (Some res, None)" "HTTP res = Some h"
  shows "FetchRaw NR Do Dec c visit =
     (if dom (Routers h) \<noteq> {} \<and> dom (Services h) \<noteq> {}
      then (case prepareResponse c visit res of
              Inl p \<Rightarrow> Inl p
            | Inr fragment \<Rightarrow> Inr (Some fragment, None))
      else Inr (None, Some (ErrEmptyResponse (endpoint.Host (endpoint c)))))"
  using assms by (simp add: FetchRaw_def)


lemma probe_ports_pair:
  "probe_ports NR Do n (skips_verification e) e [API e, WEB e] = None \<longleftrightarrow>
   probe_succeeds NR Do n e (API e) \<and> probe_succeeds NR Do (n + 1) e (WEB e)"
  by (auto simp: probe_succeeds_def Let_def split: do_result.splits)

lemma all_probes_succeed_Cons:
  "all_probes_succeed NR Do n (e # es) \<longleftrightarrow>
     probe_succeeds NR Do n e (API e) \<and> probe_succeeds NR Do (n + 1) e (WEB e) \<and>
     all_probes_succeed NR Do (n + 2) es"
proof -
  have "(\<forall>i < Suc (length es). P i) \<longleftrightarrow> P 0 \<and> (\<forall>i < length es. P (Suc i))" for P
    by (metis less_Suc_eq_0_disj)
  then show ?thesis
    by (simp add: all_probes_succeed_def add.commute add.left_commute)
qed

lemma range_endpoints_result:
  "(all_probes_succeed NR Do n es \<longrightarrow>
      range_endpoints NR Do n r es acc =
        Inr (acc @ map (\<lambda>e. \<lparr>InsecureSkipVerify = skips_verification e, endpoint = e,
                                   resolver = r\<rparr>) es)) \<and>
   (\<not> all_probes_succeed NR Do n es \<longrightarrow> (\<exists>err. range_endpoints NR Do n r es acc = Inl err))"
proof (induction es arbitrary: n acc)
  case Nil
  then show ?case by (simp add: all_probes_succeed_def)
next
  case (Cons e es)
  show ?case
  proof (cases "probe_ports NR Do n (skips_verification e) e [API e, WEB e]")
    case (Some err)
    then have "\<not> (probe_succeeds NR Do n e (API e) \<and> probe_succeeds NR Do (n + 1) e (WEB e))"
      using probe_ports_pair [of NR Do n e] by (simp del: probe_ports.simps)
    then have "\<not> all_probes_succeed NR Do n (e # es)"
      unfolding all_probes_succeed_Cons by blast
    then show ?thesis using Some by (simp del: probe_ports.simps)
  next
    case None
    then have ok: "probe_succeeds NR Do n e (API e) \<and> probe_succeeds NR Do (n + 1) e (WEB e)"
      using probe_ports_pair [of NR Do n e] by (simp del: probe_ports.simps)
    show ?thesis
      using Cons.IH [where n = "n + 2" and acc =
          "acc @ [\<lparr>InsecureSkipVerify = skips_verification e, endpoint = e, resolver = r\<rparr>]"]
        None ok
      by (auto simp: all_probes_succeed_Cons simp del: probe_ports.simps)
  qed
qed

lemma digit_char_in: "digit_char n \<in> set ''0123456789''"
proof -
  have "n mod 10 < length ''0123456789''" by simp
  then show ?thesis unfolding digit_char_def by (rule nth_mem)
qed

lemma format_nat_small: "n < 10 \<Longrightarrow> format_nat n = [digit_char n]"
  by (subst format_nat.simps) simp

lemma format_nat_large: "\<not> n < 10 \<Longrightarrow> format_nat n = format_nat (n div 10) @ [digit_char n]"
  by (subst format_nat.simps) simp

lemma format_nat_digits: "set (format_nat n) \<subseteq> set ''0123456789''"
proof (induction n rule: format_nat.induct)
  case (1 n)
  show ?case
  proof (cases "n < 10")
    case True
    have "set [digit_char n] \<subseteq> set ''0123456789''"
      using digit_char_in [of n] by (metis empty_subsetI insert_subset list.set(1) list.set(2))
    then show ?thesis unfolding format_nat_small [OF True] .
  next
    case False
    have "set (format_nat (n div 10)) \<subseteq> set ''0123456789''"
      using 1 False by blast
    moreover have "set [digit_char n] \<subseteq> set ''0123456789''"
      using digit_char_in [of n] by (metis empty_subsetI insert_subset list.set(1) list.set(2))
    ultimately have "set (format_nat (n div 10) @ [digit_char n]) \<subseteq> set ''0123456789''"
      unfolding set_append by (rule Un_least)
    then show ?thesis unfolding format_nat_large [OF False] .
  qed
qed

lemma escape_unchanged:
  "\<forall>ch \<in> set s. \<not> shouldEscape ch mode \<Longrightarrow> escape s mode = s"
  by (induction s) simp_all

lemma escape_append: "escape (s @ t) mode = escape s mode @ escape t mode"
  by (induction s) simp_all

lemma digits_not_escaped:
  "\<forall>ch \<in> set ''0123456789''. \<not> shouldEscape ch encodeHost"
  by code_simp

lemma colon_dash_not_escaped:
  "\<not> shouldEscape (CHR '':'') encodeHost" "\<not> shouldEscape (CHR ''-'') encodeHost"
  by code_simp+

lemma format_nat_not_escaped: "\<forall>ch \<in> set (format_nat n). \<not> shouldEscape ch encodeHost"
  using format_nat_digits [of n] digits_not_escaped by (meson subsetD)

lemma escape_port:
  "escape ('':'' @ format_int port) encodeHost = '':'' @ format_int port"
proof (rule escape_unchanged, rule ballI)
  fix ch
  assume "ch \<in> set ('':'' @ format_int port)"
  then have "ch = CHR '':'' \<or> ch = CHR ''-'' \<or>
             ch \<in> set (format_nat (nat port)) \<or> ch \<in> set (format_nat (nat (- port)))"
    by (cases "port < 0") (auto simp: format_int_def)
  then show "\<not> shouldEscape ch encodeHost"
    using colon_dash_not_escaped format_nat_not_escaped by blast
qed

lemma url_String_buildURI:
  "buildURI e port path =
     url.Scheme (buildURI_url e port path) @ ''://'' @
     escape (endpoint.Host e) encodeHost @ '':'' @ format_int port @
     (if EscapedPath (buildURI_url e port path) \<noteq> [] \<and>
         hd (EscapedPath (buildURI_url e port path)) \<noteq> CHR ''/'' then ''/'' else []) @
     EscapedPath (buildURI_url e port path)"
proof -
  have "escape (endpoint.Host e @ '':'' @ format_int port) encodeHost =
        escape (endpoint.Host e) encodeHost @ '':'' @ format_int port"
    using escape_port [of port] by (simp only: escape_append [of "endpoint.Host e"])
  then show ?thesis
    by (simp add: buildURI_def url_String_def buildURI_url_def Let_def)
qed

lemma prepareResponse_facts:
  assumes "HTTP res = Some h" "well_formed h visit"
  shows "\<exists>out. prepareResponse c visit res = Inr out \<and>
     provenance c h (set visit) out \<and>
     (\<forall>(key, item) \<in> set visit. survives h key \<longrightarrow>
        routers_of out (derived_name c key) \<noteq> None \<and>
        services_of out (derived_name c key) \<noteq> None \<and>
        (resolver c \<noteq> None \<longrightarrow> routers_of out (derived_name c key @ ''-secure'') \<noteq> None)) \<and>
     middlewares_of out =
       (if resolver c \<noteq> None \<and> (\<exists>(key, item) \<in> set visit. survives h key)
        then [''http2https'' \<mapsto> Some http2https] else Map.empty) \<and>
     (\<forall>r. resolver c = Some r \<and> \<not> suffix ''-secure'' (''-'' @ endpoint.Host (endpoint c)) \<longrightarrow>
        paired r out)"
proof -
  from range_routers_returns [OF assms(2), of c "\<lparr>HTTP = None\<rparr>"] obtain out where
    run: "range_routers c h visit \<lparr>HTTP = None\<rparr> = Inr out" by blast
  have 1: "prepareResponse c visit res = Inr out"
    using run assms(1) by (simp add: prepareResponse_def)
  have 2: "provenance c h (set visit) out" using run by (rule provenance_loop)
  have 3: "\<forall>(key, item) \<in> set visit. survives h key \<longrightarrow>
        routers_of out (derived_name c key) \<noteq> None \<and>
        services_of out (derived_name c key) \<noteq> None \<and>
        (resolver c \<noteq> None \<longrightarrow> routers_of out (derived_name c key @ ''-secure'') \<noteq> None)"
    using range_routers_present [OF run] by blast
  have 4: "middlewares_of out =
       (if resolver c \<noteq> None \<and> (\<exists>(key, item) \<in> set visit. survives h key)
        then [''http2https'' \<mapsto> Some http2https] else Map.empty)"
    using range_routers_middlewares [OF run] by (simp add: middlewares_of_def)
  have 5: "\<forall>r. resolver c = Some r \<and> \<not> suffix ''-secure'' (''-'' @ endpoint.Host (endpoint c)) \<longrightarrow>
        paired r out"
    using paired_loop [OF _ _ run] by blast
  from 1 2 3 4 5 show ?thesis by blast
qed

lemma derived_name_takeWhile:
  "derived_name c key =
     takeWhile (\<lambda>ch. ch \<noteq> CHR ''@'') key @ ''-'' @ endpoint.Host (endpoint c)"
  by (simp add: derived_name_def hd_Split)

lemma range_order_unique:
  "range_order m kvs \<Longrightarrow> (k, v) \<in> set kvs \<Longrightarrow> (k, v') \<in> set kvs \<Longrightarrow> v = v'"
  by (metis range_order_lookup option.inject)

lemma example_uri: "buildURI example_endpoint 8081 defaultPath = ''http://a.example:8081/''"
proof -
  have "escape ''a.example'' encodeHost = ''a.example''"
    by (rule escape_unchanged) code_simp
  moreover have "format_int 8081 = ''8081''"
    by (simp add: format_int_def format_nat_small format_nat_large digit_char_def)
  moreover have "EscapedPath (buildURI_url example_endpoint 8081 defaultPath) = ''/''"
    by (simp add: EscapedPath_def buildURI_url_def Let_def defaultPath_def
          shouldEscape_def alphanum_def in_range_def)
  moreover have "url.Scheme (buildURI_url example_endpoint 8081 defaultPath) = ''http''"
    "endpoint.Host example_endpoint = ''a.example''"
    by (simp_all add: buildURI_url_def Let_def example_endpoint_def)
  ultimately show ?thesis
    using url_String_buildURI [of example_endpoint 8081 defaultPath] by simp
qed

lemmas example_simps =
  prepareResponse_def loop_body_def Let_def derived_name_def HasSuffix_def empty_http_def
  plain_client_def tls_client_def example_endpoint_def http2https_def

lemma example_client_uri:
  "buildURI (endpoint plain_client) (WEB (endpoint plain_client)) defaultPath =
     ''http://a.example:8081/''"
  "buildURI (endpoint tls_client) (WEB (endpoint tls_client)) defaultPath =
     ''http://a.example:8081/''"
  using example_uri by (simp_all add: plain_client_def tls_client_def example_endpoint_def)

lemma example_http_facts:
  "HTTP \<lparr>HTTP = Some example_http\<rparr> = Some example_http"
  "range_order (Routers example_http) example_visit"
  "well_formed example_http example_visit"
  "Routers example_http ''web@docker'' = Some (Some web_router)"
  "Services example_http ''web@docker'' = Some (Some web_service)"
  "survives example_http ''web@docker''"
  "\<not> survives example_http ''api@internal''"
  "dom (Routers example_http) = {''api@internal'', ''web@docker''}"
  by (auto simp: range_order_def example_http_def example_visit_def well_formed_def
        survives_def HasSuffix_def web_service_def)

lemma example_names:
  "derived_name plain_client ''web@docker'' = ''web-a.example''"
  "derived_name tls_client ''web@docker'' = ''web-a.example''"
  "resolver plain_client = None"
  "resolver tls_client = Some ''myresolver''"
  "endpoint plain_client = example_endpoint"
  "endpoint tls_client = example_endpoint"
  "WEB example_endpoint = 8081"
  "endpoint.Host example_endpoint = ''a.example''"
  by (simp_all add: derived_name_def plain_client_def tls_client_def example_endpoint_def)

lemma provenance_routerD:
  assumes "provenance c src A out" and "routers_of out n = Some rt"
  shows "\<exists>key it. (key, Some it) \<in> A \<and> survives src key \<and>
           (n = derived_name c key \<and> rt = Some (plain_router c n (Rule it)) \<or>
            (\<exists>r. resolver c = Some r \<and> n = derived_name c key @ ''-secure'' \<and>
                 rt = Some (secure_router (derived_name c key) (Rule it) r)))"
proof -
  from assms(1) have "\<forall>n rt. routers_of out n = Some rt \<longrightarrow>
        (\<exists>key it. (key, Some it) \<in> A \<and> survives src key \<and>
           (n = derived_name c key \<and> rt = Some (plain_router c n (Rule it)) \<or>
            (\<exists>r. resolver c = Some r \<and> n = derived_name c key @ ''-secure'' \<and>
                 rt = Some (secure_router (derived_name c key) (Rule it) r))))"
    unfolding provenance_def by (rule conjunct1)
  then show ?thesis using assms(2) by (elim allE impE) assumption+
qed

lemma provenance_serviceD:
  assumes "provenance c src A out" and "services_of out n = Some s"
  shows "\<exists>key item svc lb. (key, item) \<in> A \<and> survives src key \<and> n = derived_name c key \<and>
           Services src key = Some (Some svc) \<and> LoadBalancer svc = Some lb \<and>
           s = Some (emitted_service c (length (Servers lb)))"
proof -
  from assms(1) have "\<forall>n s. services_of out n = Some s \<longrightarrow>
        (\<exists>key item svc lb. (key, item) \<in> A \<and> survives src key \<and> n = derived_name c key \<and>
           Services src key = Some (Some svc) \<and> LoadBalancer svc = Some lb \<and>
           s = Some (emitted_service c (length (Servers lb))))"
    unfolding provenance_def by (rule conjunct1 [OF conjunct2])
  then show ?thesis using assms(2) by (elim allE impE) assumption+
qed


lemma twin_http_facts:
  "range_order (Routers twin_http) plain_key_last"
  "range_order (Routers twin_http) secure_key_last"
  "survives twin_http ''a@x''"
  "survives twin_http ''a-secure@x''"
  by (auto simp: range_order_def twin_http_def plain_key_last_def secure_key_last_def
        survives_def HasSuffix_def)

lemma secure_host_names:
  "derived_name secure_host_client ''a@x'' = ''a-secure''"
  "derived_name secure_host_client ''a-secure@x'' = ''a-secure-secure''"
  "derived_name secure_host_plain_client ''a@x'' = ''a-secure''"
  by (simp_all add: derived_name_def secure_host_client_def secure_host_plain_client_def
        secure_host_endpoint_def)

lemmas twin_simps =
  prepareResponse_def loop_body_def Let_def derived_name_def HasSuffix_def empty_http_def
  secure_host_client_def secure_host_plain_client_def secure_host_endpoint_def http2https_def
  twin_http_def plain_key_last_def secure_key_last_def docker_router_def file_router_def
  one_server_def router_at_def service_at_def routers_of_def services_of_def

lemma example_host_not_secure:
  "\<not> suffix ''-secure'' (''-'' @ endpoint.Host (endpoint tls_client))"
  "\<not> suffix ''-secure'' (''-'' @ endpoint.Host (endpoint plain_client))"
  by (simp_all add: HasSuffix_iff_suffix [symmetric] HasSuffix_def example_names)

lemma example_tls_fragment:
  "router_at ''web-a.example-secure''
     (prepareResponse tls_client example_visit \<lparr>HTTP = Some example_http\<rparr>) =
     Some (Some \<lparr>Service = ''web-a.example'', Rule = ''Host(a)'', Middlewares = [],
                  TLS = Some \<lparr>CertResolver = ''myresolver''\<rparr>\<rparr>)"
  by (simp add: example_simps example_http_def example_visit_def web_router_def api_router_def
        web_service_def router_at_def routers_of_def)

lemma router_key_ending:
  assumes "provenance c h A out" and "n \<in> dom (routers_of out)"
  shows "\<exists>e \<in> set (key_endings c). suffix e n"
proof -
  from assms(2) obtain rt where "routers_of out n = Some rt" by blast
  from provenance_routerD [OF assms(1) this] obtain key and it :: router where
    alt: "n = derived_name c key \<and> rt = Some (plain_router c n (Rule it)) \<or>
          (\<exists>r. resolver c = Some r \<and> n = derived_name c key @ ''-secure'' \<and>
               rt = Some (secure_router (derived_name c key) (Rule it) r))"
    by (elim exE conjE) (rule that; assumption)
  then show ?thesis
  proof
    assume "n = derived_name c key \<and> rt = Some (plain_router c n (Rule it))"
    then have "suffix (''-'' @ endpoint.Host (endpoint c)) n"
      using derived_name_suffix [of c key] by simp
    then show ?thesis by (simp add: key_endings_def)
  next
    assume "\<exists>r. resolver c = Some r \<and> n = derived_name c key @ ''-secure'' \<and>
               rt = Some (secure_router (derived_name c key) (Rule it) r)"
    then obtain r where r: "resolver c = Some r" and n: "n = derived_name c key @ ''-secure''"
      by blast
    have "suffix (''-'' @ endpoint.Host (endpoint c) @ ''-secure'') n"
      unfolding n derived_name_def by (simp add: suffix_def)
    then show ?thesis using r by (simp add: key_endings_def)
  qed
qed

lemma service_key_ending:
  assumes "provenance c h A out" and "n \<in> dom (services_of out)"
  shows "suffix (''-'' @ endpoint.Host (endpoint c)) n"
proof -
  from assms(2) obtain s where "services_of out n = Some s" by blast
  from provenance_serviceD [OF assms(1) this] obtain key where "n = derived_name c key"
    by (elim exE conjE) (rule that; assumption)
  then show ?thesis using derived_name_suffix [of c key] by simp
qed

lemma endings_disjoint:
  assumes "\<forall>e1 \<in> set E1. \<forall>e2 \<in> set E2. \<not> suffix e1 e2 \<and> \<not> suffix e2 e1"
    and "\<exists>e \<in> set E1. suffix e n" and "\<exists>e \<in> set E2. suffix e n"
  shows False
proof -
  from assms(2,3) obtain e1 e2 where
    e: "e1 \<in> set E1" "suffix e1 n" "e2 \<in> set E2" "suffix e2 n" by blast
  then have "suffix e1 e2 \<or> suffix e2 e1" using suffix_same_cases by blast
  with assms(1) e(1,3) show False by blast
qed

section \<open>Routers that are skipped\<close>

text \<open>
  Claim C4.  A router whose key ends in \<open>@internal\<close> contributes nothing to the
  fragment: for every visiting order of the routers, \<open>prepareResponse\<close> returns on the
  document exactly what it returns on the document from which the internal routers have
  been removed (the same fragment, or the same panic), so no router, service or
  middleware of the output, under whatever key, is due to an internal router.  In
  particular a document all of whose routers are internal yields the fragment without
  any entry.
\<close>

theorem internal_routers_contribute_nothing:
  assumes "HTTP res = Some h" and "range_order (Routers h) visit"
  shows "(\<exists>h'. HTTP (without_routers (\<lambda>key. suffix ''@internal'' key) res) = Some h' \<and>
            Services h' = Services h \<and>
            dom (Routers h') = {key \<in> dom (Routers h). \<not> suffix ''@internal'' key} \<and>
            range_order (Routers h')
              (filter (\<lambda>(key, item). \<not> suffix ''@internal'' key) visit)) \<and>
         prepareResponse c visit res =
           prepareResponse c (filter (\<lambda>(key, item). \<not> suffix ''@internal'' key) visit)
             (without_routers (\<lambda>key. suffix ''@internal'' key) res) \<and>
         ((\<forall>key \<in> dom (Routers h). suffix ''@internal'' key) \<longrightarrow>
            prepareResponse c visit res = Inr \<lparr>HTTP = None\<rparr>)"
proof (intro conjI impI)
  show "\<exists>h'. HTTP (without_routers (\<lambda>key. suffix ''@internal'' key) res) = Some h' \<and>
            Services h' = Services h \<and>
            dom (Routers h') = {key \<in> dom (Routers h). \<not> suffix ''@internal'' key} \<and>
            range_order (Routers h')
              (filter (\<lambda>(key, item). \<not> suffix ''@internal'' key) visit)"
    using assms by (rule range_order_without)
next
  have "\<forall>(key, item) \<in> set visit. suffix ''@internal'' key \<longrightarrow> \<not> survives h key"
    by (auto simp: survives_def HasSuffix_iff_suffix)
  from prepareResponse_without [OF assms(1) this]
  show "prepareResponse c visit res =
           prepareResponse c (filter (\<lambda>(key, item). \<not> suffix ''@internal'' key) visit)
             (without_routers (\<lambda>key. suffix ''@internal'' key) res)"
    by simp
next
  assume a: "\<forall>key \<in> dom (Routers h). suffix ''@internal'' key"
  have "fst ` set visit = dom (Routers h)"
    using assms(2) by (rule range_order_keys)
  with a have "\<forall>(key, item) \<in> set visit. \<not> survives h key"
    by (force simp: survives_def HasSuffix_iff_suffix)
  then show "prepareResponse c visit res = Inr \<lparr>HTTP = None\<rparr>"
    using assms(1) by (simp add: prepareResponse_def range_routers_none_survive)
qed

theorem internal_routers_contribute_nothing_witness:
  "range_order (Routers example_http) example_visit \<and>
   prepareResponse tls_client example_visit \<lparr>HTTP = Some example_http\<rparr> =
     prepareResponse tls_client [(''web@docker'', Some web_router)]
       (without_routers (\<lambda>key. suffix ''@internal'' key) \<lparr>HTTP = Some example_http\<rparr>) \<and>
   range_order (Routers internal_http) [(''api@internal'', Some api_router)] \<and>
   prepareResponse tls_client [(''api@internal'', Some api_router)] \<lparr>HTTP = Some internal_http\<rparr> =
     Inr \<lparr>HTTP = None\<rparr>"
proof -
  have o1: "range_order (Routers example_http) example_visit"
    by (simp add: range_order_def example_http_def example_visit_def)
  have o2: "range_order (Routers internal_http) [(''api@internal'', Some api_router)]"
    by (simp add: range_order_def internal_http_def)
  have s: "suffix ''@internal'' ''api@internal''" "\<not> suffix ''@internal'' ''web@docker''"
    by (simp_all add: HasSuffix_iff_suffix [symmetric] HasSuffix_def)
  have d: "dom (Routers internal_http) = {''api@internal''}"
    by (simp add: internal_http_def)
  have h1: "HTTP \<lparr>HTTP = Some example_http\<rparr> = Some example_http"
    and h2: "HTTP \<lparr>HTTP = Some internal_http\<rparr> = Some internal_http"
    by simp_all
  have f: "filter (\<lambda>(key, item). \<not> suffix ''@internal'' key) example_visit =
             [(''web@docker'', Some web_router)]"
    by (simp add: example_visit_def s)
  have "prepareResponse tls_client example_visit \<lparr>HTTP = Some example_http\<rparr> =
     prepareResponse tls_client
       (filter (\<lambda>(key, item). \<not> suffix ''@internal'' key) example_visit)
       (without_routers (\<lambda>key. suffix ''@internal'' key) \<lparr>HTTP = Some example_http\<rparr>)"
    by (rule conjunct1 [OF conjunct2
          [OF internal_routers_contribute_nothing [OF h1 o1, of tls_client]]])
  then have a: "prepareResponse tls_client example_visit \<lparr>HTTP = Some example_http\<rparr> =
     prepareResponse tls_client [(''web@docker'', Some web_router)]
       (without_routers (\<lambda>key. suffix ''@internal'' key) \<lparr>HTTP = Some example_http\<rparr>)"
    unfolding f .
  have "\<forall>key \<in> dom (Routers internal_http). suffix ''@internal'' key"
    using d s by simp
  with conjunct2 [OF conjunct2
          [OF internal_routers_contribute_nothing [OF h2 o2, of tls_client]]]
  have b: "prepareResponse tls_client [(''api@internal'', Some api_router)]
       \<lparr>HTTP = Some internal_http\<rparr> = Inr \<lparr>HTTP = None\<rparr>"
    by blast
  from o1 a o2 b show ?thesis by blast
qed


text \<open>
  Claim C5.  A router whose key has no entry in the services of the source contributes
  nothing and causes no error: \<open>prepareResponse\<close> returns on the document exactly what
  it returns on the document from which these routers have been removed.  When no
  router of the document has a matching service, the fragment has no entry at all
  (its \<open>HTTP\<close> pointer is \<open>nil\<close>) and \<open>FetchRaw\<close>, on a document with at least one
  router and one service, sends this fragment and returns no error, which is not the
  empty-response error.
\<close>

theorem routers_without_service_are_dropped:
  assumes "HTTP res = Some h" and "range_order (Routers h) visit"
  shows "(\<exists>h'. HTTP (without_routers (\<lambda>key. Services h key = None) res) = Some h' \<and>
            Services h' = Services h \<and>
            dom (Routers h') = {key \<in> dom (Routers h). Services h key \<noteq> None} \<and>
            range_order (Routers h')
              (filter (\<lambda>(key, item). Services h key \<noteq> None) visit)) \<and>
         prepareResponse c visit res =
           prepareResponse c (filter (\<lambda>(key, item). Services h key \<noteq> None) visit)
             (without_routers (\<lambda>key. Services h key = None) res) \<and>
         ((\<forall>key \<in> dom (Routers h). Services h key = None) \<longrightarrow>
            prepareResponse c visit res = Inr \<lparr>HTTP = None\<rparr> \<and>
            (\<forall>NR Do Dec. httpCall NR Do Dec c = (Some res, None) \<and>
               dom (Routers h) \<noteq> {} \<and> dom (Services h) \<noteq> {} \<longrightarrow>
               FetchRaw NR Do Dec c visit = Inr (Some \<lparr>HTTP = None\<rparr>, None)))"
proof (intro conjI impI allI)
  show "\<exists>h'. HTTP (without_routers (\<lambda>key. Services h key = None) res) = Some h' \<and>
            Services h' = Services h \<and>
            dom (Routers h') = {key \<in> dom (Routers h). Services h key \<noteq> None} \<and>
            range_order (Routers h')
              (filter (\<lambda>(key, item). Services h key \<noteq> None) visit)"
    using range_order_without [OF assms, of "\<lambda>key. Services h key = None"] by simp
next
  have "\<forall>(key, item) \<in> set visit. Services h key = None \<longrightarrow> \<not> survives h key"
    by (auto simp: survives_def)
  from prepareResponse_without [OF assms(1) this]
  show "prepareResponse c visit res =
           prepareResponse c (filter (\<lambda>(key, item). Services h key \<noteq> None) visit)
             (without_routers (\<lambda>key. Services h key = None) res)"
    by simp
next
  assume a: "\<forall>key \<in> dom (Routers h). Services h key = None"
  have "fst ` set visit = dom (Routers h)"
    using assms(2) by (rule range_order_keys)
  with a have "\<forall>(key, item) \<in> set visit. \<not> survives h key"
    by (force simp: survives_def)
  then show p: "prepareResponse c visit res = Inr \<lparr>HTTP = None\<rparr>"
    using assms(1) by (simp add: prepareResponse_def range_routers_none_survive)
  fix NR Do Dec
  assume "httpCall NR Do Dec c = (Some res, None) \<and>
               dom (Routers h) \<noteq> {} \<and> dom (Services h) \<noteq> {}"
  then show "FetchRaw NR Do Dec c visit = Inr (Some \<lparr>HTTP = None\<rparr>, None)"
    using FetchRaw_decoded [of NR Do Dec c res h visit] assms(1) p by simp
qed

section \<open>The empty response\<close>


theorem routers_without_service_are_dropped_witness:
  "range_order (Routers dangling_http) [(''router@x'', Some web_router)] \<and>
   prepareResponse plain_client [(''router@x'', Some web_router)] \<lparr>HTTP = Some dangling_http\<rparr> =
     Inr \<lparr>HTTP = None\<rparr> \<and>
   FetchRaw always_accept (answer_with ''{}'') (decode_as (Decoded (Some dangling_http)))
     plain_client [(''router@x'', Some web_router)] = Inr (Some \<lparr>HTTP = None\<rparr>, None)"
proof -
  have h: "HTTP \<lparr>HTTP = Some dangling_http\<rparr> = Some dangling_http" by simp
  have o: "range_order (Routers dangling_http) [(''router@x'', Some web_router)]"
    by (simp add: range_order_def dangling_http_def)
  have d: "\<forall>key \<in> dom (Routers dangling_http). Services dangling_http key = None"
    by (simp add: dangling_http_def)
  have c: "httpCall always_accept (answer_with ''{}'') (decode_as (Decoded (Some dangling_http)))
             plain_client = (Some \<lparr>HTTP = Some dangling_http\<rparr>, None)"
    by (simp add: httpCall_def always_accept_def answer_with_def decode_as_def)
  have n: "dom (Routers dangling_http) \<noteq> {}" "dom (Services dangling_http) \<noteq> {}"
    by (simp_all add: dangling_http_def)
  from conjunct2 [OF conjunct2 [OF routers_without_service_are_dropped [OF h o, of plain_client]]] d
  have "prepareResponse plain_client [(''router@x'', Some web_router)]
          \<lparr>HTTP = Some dangling_http\<rparr> = Inr \<lparr>HTTP = None\<rparr> \<and>
        (\<forall>NR Do Dec.
           httpCall NR Do Dec plain_client = (Some \<lparr>HTTP = Some dangling_http\<rparr>, None) \<and>
           dom (Routers dangling_http) \<noteq> {} \<and> dom (Services dangling_http) \<noteq> {} \<longrightarrow>
           FetchRaw NR Do Dec plain_client [(''router@x'', Some web_router)] =
             Inr (Some \<lparr>HTTP = None\<rparr>, None))"
    by blast
  with c n o show ?thesis by blast
qed


section \<open>Client construction is all or nothing\<close>

text \<open>
  Claim C9.  \<open>PrepareClients\<close> probes, for every endpoint in turn, the API port and then
  the web port at the root path.  When every probe succeeds (the request is accepted,
  answered, and its body closes), the result is one client per endpoint, in the order of
  the configuration, whose transport skips certificate verification exactly when the
  endpoint has a TLS policy with \<open>IgnoreInsecure\<close> set.  When some probe fails the
  result is an error and no list of clients.
\<close>

theorem PrepareClients_all_or_nothing:
  "(if \<forall>i < length (Endpoints c).
         probe_succeeds NR Do (2 * i) (Endpoints c ! i) (API (Endpoints c ! i)) \<and>
         probe_succeeds NR Do (2 * i + 1) (Endpoints c ! i) (WEB (Endpoints c ! i))
    then PrepareClients NR Do c =
           Inr (map (\<lambda>e. \<lparr>InsecureSkipVerify =
                              (case endpoint.TLS e of None \<Rightarrow> False | Some t \<Rightarrow> IgnoreInsecure t),
                            endpoint = e, resolver = TLSResolver c\<rparr>) (Endpoints c))
    else \<exists>err. PrepareClients NR Do c = Inl err)"
  using range_endpoints_result [where NR = NR and Do = Do and n = 0 and r = "TLSResolver c"
      and es = "Endpoints c" and acc = "[]"]
  by (auto simp: PrepareClients_def all_probes_succeed_def skips_verification_def)

theorem PrepareClients_all_or_nothing_witness:
  "PrepareClients always_accept answer_all example_config =
     Inr [\<lparr>InsecureSkipVerify = False, endpoint = example_endpoint,
           resolver = Some ''myresolver''\<rparr>,
          \<lparr>InsecureSkipVerify = True, endpoint = insecure_endpoint,
           resolver = Some ''myresolver''\<rparr>] \<and>
   (\<exists>err. PrepareClients always_accept (fail_at 3) example_config = Inl err)"
proof -
  have l: "length (Endpoints example_config) = Suc (Suc 0)"
    by (simp add: example_config_def)
  have a: "\<forall>i < length (Endpoints example_config).
         probe_succeeds always_accept answer_all (2 * i) (Endpoints example_config ! i)
           (API (Endpoints example_config ! i)) \<and>
         probe_succeeds always_accept answer_all (2 * i + 1) (Endpoints example_config ! i)
           (WEB (Endpoints example_config ! i))"
    by (simp add: probe_succeeds_def always_accept_def answer_all_def)
  have b: "\<not> (\<forall>i < length (Endpoints example_config).
         probe_succeeds always_accept (fail_at 3) (2 * i) (Endpoints example_config ! i)
           (API (Endpoints example_config ! i)) \<and>
         probe_succeeds always_accept (fail_at 3) (2 * i + 1) (Endpoints example_config ! i)
           (WEB (Endpoints example_config ! i)))"
    unfolding l by (simp add: probe_succeeds_def always_accept_def fail_at_def)
  have r1: "PrepareClients always_accept answer_all example_config =
     Inr [\<lparr>InsecureSkipVerify = False, endpoint = example_endpoint,
           resolver = Some ''myresolver''\<rparr>,
          \<lparr>InsecureSkipVerify = True, endpoint = insecure_endpoint,
           resolver = Some ''myresolver''\<rparr>]"
    using PrepareClients_all_or_nothing [of example_config always_accept answer_all] a
    by (simp add: example_config_def example_endpoint_def insecure_endpoint_def)
  have r2: "\<exists>err. PrepareClients always_accept (fail_at 3) example_config = Inl err"
    using PrepareClients_all_or_nothing [of example_config always_accept "fail_at 3"] b
    by simp
  from r1 r2 show ?thesis by blast
qed

section \<open>The URI of an endpoint\<close>

text \<open>
  Claim C8, amended.  \<open>buildURI\<close> is a function of the endpoint, the port and the path
  alone, with no failure.  The URL it renders has the scheme \<open>https\<close> when the endpoint
  has a TLS policy and \<open>http\<close> when it has none, and its host field is the host of the
  endpoint, a colon and the port in decimal.  Rendered by \<open>url.URL.String\<close>, the URI is
  the scheme, \<open>://\<close>, the host with every byte that may not occur in a host
  percent-escaped, the colon and the port, and the escaped path.  For an endpoint whose
  host has no such byte the authority of the URI reads \<open>host:port\<close> literally.

  As stated, for every endpoint, the claim fails: the host \<open>a b\<close> gives the authority
  \<open>a%20b:8080\<close>, which is not the host joined with the port.
\<close>

theorem buildURI_scheme_and_authority:
  "url.Scheme (buildURI_url e port path) =
     (if endpoint.TLS e = None then ''http'' else ''https'') \<and>
   url.Host (buildURI_url e port path) = endpoint.Host e @ '':'' @ format_int port \<and>
   url.Path (buildURI_url e port path) = path \<and>
   buildURI e port path =
     (if endpoint.TLS e = None then ''http'' else ''https'') @ ''://'' @
     escape (endpoint.Host e) encodeHost @ '':'' @ format_int port @
     (if EscapedPath (buildURI_url e port path) \<noteq> [] \<and>
         hd (EscapedPath (buildURI_url e port path)) \<noteq> CHR ''/'' then ''/'' else []) @
     EscapedPath (buildURI_url e port path) \<and>
   ((\<forall>ch \<in> set (endpoint.Host e). \<not> shouldEscape ch encodeHost) \<longrightarrow>
      buildURI e port path =
        (if endpoint.TLS e = None then ''http'' else ''https'') @ ''://'' @
        endpoint.Host e @ '':'' @ format_int port @
        (if EscapedPath (buildURI_url e port path) \<noteq> [] \<and>
            hd (EscapedPath (buildURI_url e port path)) \<noteq> CHR ''/'' then ''/'' else []) @
        EscapedPath (buildURI_url e port path))"
proof -
  have s: "url.Scheme (buildURI_url e port path) =
     (if endpoint.TLS e = None then ''http'' else ''https'')"
    by (simp add: buildURI_url_def Let_def)
  have h: "url.Host (buildURI_url e port path) = endpoint.Host e @ '':'' @ format_int port"
    and p: "url.Path (buildURI_url e port path) = path"
    by (simp_all add: buildURI_url_def Let_def)
  note r = url_String_buildURI [of e port path, unfolded s]
  have "\<forall>ch \<in> set (endpoint.Host e). \<not> shouldEscape ch encodeHost \<Longrightarrow>
      buildURI e port path =
        (if endpoint.TLS e = None then ''http'' else ''https'') @ ''://'' @
        endpoint.Host e @ '':'' @ format_int port @
        (if EscapedPath (buildURI_url e port path) \<noteq> [] \<and>
            hd (EscapedPath (buildURI_url e port path)) \<noteq> CHR ''/'' then ''/'' else []) @
        EscapedPath (buildURI_url e port path)"
  proof -
    assume "\<forall>ch \<in> set (endpoint.Host e). \<not> shouldEscape ch encodeHost"
    then have "escape (endpoint.Host e) encodeHost = endpoint.Host e"
      by (rule escape_unchanged)
    with r show ?thesis by (simp only:)
  qed
  with s h p r show ?thesis by (intro conjI impI)
qed

theorem buildURI_scheme_and_authority_witness:
  "buildURI example_endpoint 8081 defaultPath = ''http://a.example:8081/'' \<and>
   buildURI insecure_endpoint 9090 defaultRawPath = ''https://b.example:9090/api/rawdata''"
proof -
  have a: "\<forall>ch \<in> set (endpoint.Host example_endpoint). \<not> shouldEscape ch encodeHost"
    "\<forall>ch \<in> set (endpoint.Host insecure_endpoint). \<not> shouldEscape ch encodeHost"
    by code_simp+
  have b: "format_int 8081 = ''8081''" "format_int 9090 = ''9090''"
    by (simp_all add: format_int_def format_nat_small format_nat_large digit_char_def)
  have c: "EscapedPath (buildURI_url example_endpoint 8081 defaultPath) = ''/''"
    "EscapedPath (buildURI_url insecure_endpoint 9090 defaultRawPath) = ''/api/rawdata''"
    by (simp_all add: EscapedPath_def buildURI_url_def Let_def defaultPath_def defaultRawPath_def
          shouldEscape_def alphanum_def in_range_def)
  have d: "endpoint.TLS example_endpoint = None" "endpoint.TLS insecure_endpoint \<noteq> None"
    "endpoint.Host example_endpoint = ''a.example''"
    "endpoint.Host insecure_endpoint = ''b.example''"
    by (simp_all add: example_endpoint_def insecure_endpoint_def)
  note t1 = conjunct2 [OF conjunct2 [OF conjunct2 [OF conjunct2
      [OF buildURI_scheme_and_authority [of example_endpoint 8081 defaultPath]]]]]
  note t2 = conjunct2 [OF conjunct2 [OF conjunct2 [OF conjunct2
      [OF buildURI_scheme_and_authority [of insecure_endpoint 9090 defaultRawPath]]]]]
  have "buildURI example_endpoint 8081 defaultPath = ''http://a.example:8081/''"
    using mp [OF t1 a(1)] unfolding b c d by simp
  moreover have "buildURI insecure_endpoint 9090 defaultRawPath =
      ''https://b.example:9090/api/rawdata''"
    using mp [OF t2 a(2)] d(2) unfolding b c d(4) by simp
  ultimately show ?thesis by blast
qed

theorem buildURI_scheme_and_authority_counterexample:
  "endpoint.Host spaced_endpoint @ '':'' @ format_int 8080 = ''a b:8080'' \<and>
   buildURI spaced_endpoint 8080 defaultPath = ''http://a%20b:8080/'' \<and>
   buildURI spaced_endpoint 8080 defaultPath \<noteq> ''http://a b:8080/''"
proof -
  have p: "format_int 8080 = ''8080''"
    by (simp add: format_int_def format_nat_small format_nat_large digit_char_def)
  have h: "endpoint.Host spaced_endpoint = ''a b''"
    by (simp add: spaced_endpoint_def)
  have e: "escape ''a b'' encodeHost = ''a%20b''"
    by code_simp
  have s: "url.Scheme (buildURI_url spaced_endpoint 8080 defaultPath) = ''http''"
    by (simp add: buildURI_url_def Let_def spaced_endpoint_def)
  have q: "EscapedPath (buildURI_url spaced_endpoint 8080 defaultPath) = ''/''"
    by (simp add: EscapedPath_def buildURI_url_def Let_def defaultPath_def
          shouldEscape_def alphanum_def in_range_def)
  have u: "buildURI spaced_endpoint 8080 defaultPath = ''http://a%20b:8080/''"
    using url_String_buildURI [of spaced_endpoint 8080 defaultPath]
    unfolding s h e p q by simp
  from p h u show ?thesis by simp
qed

section \<open>What is emitted for a surviving router\<close>

text \<open>
  Claim C2, amended.  Let the document be well formed (no router, service or load
  balancer of a surviving entry is \<open>nil\<close>), so that \<open>prepareResponse\<close> returns a
  fragment.  For every router key that survives and whose derived name is not the derived
  name of another surviving key (nor, with a certificate resolver, the derived name of
  another surviving key followed by \<open>-secure\<close>), the fragment has under the derived
  name, which is the key up to its first \<open>@\<close>, a dash and the host of the endpoint, the
  plain router: its service is the derived name, its rule the rule of the source router,
  it has no TLS, and its middlewares are empty without a resolver and \<open>http2https\<close>
  with one.

  As stated, for every surviving key, the claim fails: the keys \<open>web@docker\<close> and
  \<open>web@file\<close> have the same derived name, and the one router emitted under it carries
  the rule of the key visited last.
\<close>

theorem plain_router_emitted:
  assumes "HTTP res = Some h" and "range_order (Routers h) visit" and "well_formed h visit"
  shows "\<exists>out. prepareResponse c visit res = Inr out \<and>
    (\<forall>key it.
       Routers h key = Some (Some it) \<and> survives h key \<and>
       (\<forall>k \<in> dom (Routers h). k \<noteq> key \<and> survives h k \<longrightarrow>
          derived_name c k \<noteq> derived_name c key \<and>
          (resolver c \<noteq> None \<longrightarrow> derived_name c k @ ''-secure'' \<noteq> derived_name c key)) \<longrightarrow>
       derived_name c key =
         takeWhile (\<lambda>ch. ch \<noteq> CHR ''@'') key @ ''-'' @ endpoint.Host (endpoint c) \<and>
       routers_of out (derived_name c key) =
         Some (Some \<lparr>Service = derived_name c key, Rule = Rule it,
                      Middlewares = (case resolver c of None \<Rightarrow> [] | Some r \<Rightarrow> [''http2https'']),
                      TLS = None\<rparr>))"
proof -
  from prepareResponse_facts [OF assms(1,3), of c] obtain out where
    run: "prepareResponse c visit res = Inr out" and
    prov: "provenance c h (set visit) out" and
    pres: "\<forall>(key, item) \<in> set visit. survives h key \<longrightarrow>
        routers_of out (derived_name c key) \<noteq> None \<and>
        services_of out (derived_name c key) \<noteq> None \<and>
        (resolver c \<noteq> None \<longrightarrow> routers_of out (derived_name c key @ ''-secure'') \<noteq> None)"
    by blast
  have "routers_of out (derived_name c key) =
         Some (Some (plain_router c (derived_name c key) (Rule it)))"
    if src: "Routers h key = Some (Some it)" and s: "survives h key"
      and u: "\<forall>k \<in> dom (Routers h). k \<noteq> key \<and> survives h k \<longrightarrow>
          derived_name c k \<noteq> derived_name c key \<and>
          (resolver c \<noteq> None \<longrightarrow> derived_name c k @ ''-secure'' \<noteq> derived_name c key)"
    for key it
  proof -
    have mem: "(key, Some it) \<in> set visit"
      using src range_order_lookup [OF assms(2)] by simp
    with pres s obtain rt where rt: "routers_of out (derived_name c key) = Some rt"
      by fastforce
    with prov obtain k' it' where
      k': "(k', Some it') \<in> set visit" "survives h k'" and
      alt: "derived_name c key = derived_name c k' \<and>
              rt = Some (plain_router c (derived_name c key) (Rule it')) \<or>
            (\<exists>r. resolver c = Some r \<and> derived_name c key = derived_name c k' @ ''-secure'' \<and>
                 rt = Some (secure_router (derived_name c k') (Rule it') r))"
      unfolding provenance_def by blast
    have dom: "k' \<in> dom (Routers h)"
      using k'(1) range_order_lookup [OF assms(2)] by blast
    have same: "k' = key"
    proof (rule ccontr)
      assume "k' \<noteq> key"
      with u dom k'(2) have "derived_name c k' \<noteq> derived_name c key \<and>
          (resolver c \<noteq> None \<longrightarrow> derived_name c k' @ ''-secure'' \<noteq> derived_name c key)"
        by blast
      with alt show False by auto
    qed
    with k'(1) mem have "it' = it"
      using range_order_unique [OF assms(2)] by blast
    with alt same rt show ?thesis by auto
  qed
  then show ?thesis
    using run derived_name_takeWhile [of c] by (auto simp: plain_router_def)
qed

theorem plain_router_emitted_counterexample:
  "range_order (Routers colliding_http) file_last \<and>
   range_order (Routers colliding_http) docker_last \<and>
   Routers colliding_http ''web@docker'' = Some (Some docker_router) \<and>
   Routers colliding_http ''web@file'' = Some (Some file_router) \<and>
   Rule docker_router = ''Host(a)'' \<and> Rule file_router = ''Host(b)'' \<and>
   prepareResponse plain_client file_last \<lparr>HTTP = Some colliding_http\<rparr> =
     Inr \<lparr>HTTP = Some
       \<lparr>Routers = [''web-a.example'' \<mapsto>
          Some \<lparr>Service = ''web-a.example'', Rule = ''Host(b)'', Middlewares = [], TLS = None\<rparr>],
        Services = [''web-a.example'' \<mapsto>
          Some \<lparr>LoadBalancer = Some \<lparr>Servers = [\<lparr>URL = ''http://a.example:8081/''\<rparr>]\<rparr>\<rparr>],
        Middlewares = Map.empty\<rparr>\<rparr> \<and>
   prepareResponse plain_client docker_last \<lparr>HTTP = Some colliding_http\<rparr> =
     Inr \<lparr>HTTP = Some
       \<lparr>Routers = [''web-a.example'' \<mapsto>
          Some \<lparr>Service = ''web-a.example'', Rule = ''Host(a)'', Middlewares = [], TLS = None\<rparr>],
        Services = [''web-a.example'' \<mapsto>
          Some \<lparr>LoadBalancer = Some \<lparr>Servers =
            [\<lparr>URL = ''http://a.example:8081/''\<rparr>, \<lparr>URL = ''http://a.example:8081/''\<rparr>]\<rparr>\<rparr>],
        Middlewares = Map.empty\<rparr>\<rparr>"
proof -
  have o: "range_order (Routers colliding_http) file_last"
    "range_order (Routers colliding_http) docker_last"
    by (auto simp: range_order_def colliding_http_def file_last_def docker_last_def)
  have r: "Routers colliding_http ''web@docker'' = Some (Some docker_router)"
    "Routers colliding_http ''web@file'' = Some (Some file_router)"
    "Rule docker_router = ''Host(a)''" "Rule file_router = ''Host(b)''"
    by (simp_all add: colliding_http_def docker_router_def file_router_def)
  have u: "buildURI \<lparr>Host = ''a.example'', API = 8080, WEB = 8081, TLS = None\<rparr> 8081 defaultPath =
      ''http://a.example:8081/''"
    using example_uri by (simp add: example_endpoint_def)
  have p1: "prepareResponse plain_client file_last \<lparr>HTTP = Some colliding_http\<rparr> =
     Inr \<lparr>HTTP = Some
       \<lparr>Routers = [''web-a.example'' \<mapsto>
          Some \<lparr>Service = ''web-a.example'', Rule = ''Host(b)'', Middlewares = [], TLS = None\<rparr>],
        Services = [''web-a.example'' \<mapsto>
          Some \<lparr>LoadBalancer = Some \<lparr>Servers = [\<lparr>URL = ''http://a.example:8081/''\<rparr>]\<rparr>\<rparr>],
        Middlewares = Map.empty\<rparr>\<rparr>"
    by (simp add: example_simps u colliding_http_def file_last_def docker_router_def
          file_router_def web_service_def one_server_def)
  have p2: "prepareResponse plain_client docker_last \<lparr>HTTP = Some colliding_http\<rparr> =
     Inr \<lparr>HTTP = Some
       \<lparr>Routers = [''web-a.example'' \<mapsto>
          Some \<lparr>Service = ''web-a.example'', Rule = ''Host(a)'', Middlewares = [], TLS = None\<rparr>],
        Services = [''web-a.example'' \<mapsto>
          Some \<lparr>LoadBalancer = Some \<lparr>Servers =
            [\<lparr>URL = ''http://a.example:8081/''\<rparr>, \<lparr>URL = ''http://a.example:8081/''\<rparr>]\<rparr>\<rparr>],
        Middlewares = Map.empty\<rparr>\<rparr>"
    by (simp add: example_simps u colliding_http_def docker_last_def docker_router_def
          file_router_def web_service_def one_server_def)
  from o r p1 p2 show ?thesis by blast
qed

theorem plain_router_emitted_witness:
  "\<exists>out. prepareResponse tls_client example_visit \<lparr>HTTP = Some example_http\<rparr> = Inr out \<and>
     routers_of out ''web-a.example'' =
       Some (Some \<lparr>Service = ''web-a.example'', Rule = ''Host(a)'',
                    Middlewares = [''http2https''], TLS = None\<rparr>)"
proof -
  from plain_router_emitted [OF example_http_facts(1-3), of tls_client] obtain out where
    run: "prepareResponse tls_client example_visit \<lparr>HTTP = Some example_http\<rparr> = Inr out" and
    all: "\<forall>key it.
       Routers example_http key = Some (Some it) \<and> survives example_http key \<and>
       (\<forall>k \<in> dom (Routers example_http). k \<noteq> key \<and> survives example_http k \<longrightarrow>
          derived_name tls_client k \<noteq> derived_name tls_client key \<and>
          (resolver tls_client \<noteq> None \<longrightarrow>
             derived_name tls_client k @ ''-secure'' \<noteq> derived_name tls_client key)) \<longrightarrow>
       derived_name tls_client key =
         takeWhile (\<lambda>ch. ch \<noteq> CHR ''@'') key @ ''-'' @ endpoint.Host (endpoint tls_client) \<and>
       routers_of out (derived_name tls_client key) =
         Some (Some \<lparr>Service = derived_name tls_client key, Rule = Rule it,
                      Middlewares = (case resolver tls_client of None \<Rightarrow> []
                                     | Some r \<Rightarrow> [''http2https'']),
                      TLS = None\<rparr>)"
    by blast
  have u: "\<forall>k \<in> dom (Routers example_http). k \<noteq> ''web@docker'' \<and> survives example_http k \<longrightarrow>
          derived_name tls_client k \<noteq> derived_name tls_client ''web@docker'' \<and>
          (resolver tls_client \<noteq> None \<longrightarrow>
             derived_name tls_client k @ ''-secure'' \<noteq> derived_name tls_client ''web@docker'')"
    using example_http_facts(7) by (simp add: example_http_facts(8))
  from all example_http_facts(4,6) u
  have "routers_of out (derived_name tls_client ''web@docker'') =
         Some (Some \<lparr>Service = derived_name tls_client ''web@docker'', Rule = Rule web_router,
                      Middlewares = (case resolver tls_client of None \<Rightarrow> []
                                     | Some r \<Rightarrow> [''http2https'']),
                      TLS = None\<rparr>)"
    by blast
  then have "routers_of out ''web-a.example'' =
       Some (Some \<lparr>Service = ''web-a.example'', Rule = ''Host(a)'',
                    Middlewares = [''http2https''], TLS = None\<rparr>)"
    by (simp add: example_names web_router_def)
  with run show ?thesis by blast
qed

text \<open>
  Claim C7, amended.  Let the document be well formed, so that \<open>prepareResponse\<close>
  returns a fragment.  Every service of the fragment is a load balancer whose servers
  all have the URL built from the host of the endpoint, its web port and the root path,
  and their number is the number of servers of the source service of a surviving router
  with that derived name.  For a surviving key whose derived name is not the derived name
  of another surviving key, the service under its derived name has exactly as many
  servers as its own source service.

  As stated, for every surviving router, the claim fails: \<open>web@docker\<close> and
  \<open>web@file\<close> share one emitted service, which has the number of servers of the key
  visited last.
\<close>

theorem service_servers_emitted:
  assumes "HTTP res = Some h" and "range_order (Routers h) visit" and "well_formed h visit"
  shows "\<exists>out. prepareResponse c visit res = Inr out \<and>
    (\<forall>key svc lb.
       key \<in> dom (Routers h) \<and> survives h key \<and>
       Services h key = Some (Some svc) \<and> LoadBalancer svc = Some lb \<and>
       (\<forall>k \<in> dom (Routers h). k \<noteq> key \<and> survives h k \<longrightarrow>
          derived_name c k \<noteq> derived_name c key) \<longrightarrow>
       services_of out (derived_name c key) =
         Some (Some \<lparr>LoadBalancer = Some \<lparr>Servers =
           replicate (length (Servers lb))
             \<lparr>URL = buildURI (endpoint c) (WEB (endpoint c)) defaultPath\<rparr>\<rparr>\<rparr>)) \<and>
    (\<forall>n s. services_of out n = Some s \<longrightarrow>
       (\<exists>key svc lb.
          key \<in> dom (Routers h) \<and> survives h key \<and> n = derived_name c key \<and>
          Services h key = Some (Some svc) \<and> LoadBalancer svc = Some lb \<and>
          s = Some \<lparr>LoadBalancer = Some \<lparr>Servers =
                replicate (length (Servers lb))
                  \<lparr>URL = buildURI (endpoint c) (WEB (endpoint c)) defaultPath\<rparr>\<rparr>\<rparr>))"
proof -
  from prepareResponse_facts [OF assms(1,3), of c] obtain out where
    run: "prepareResponse c visit res = Inr out" and
    prov: "provenance c h (set visit) out" and
    pres: "\<forall>(key, item) \<in> set visit. survives h key \<longrightarrow>
        routers_of out (derived_name c key) \<noteq> None \<and>
        services_of out (derived_name c key) \<noteq> None \<and>
        (resolver c \<noteq> None \<longrightarrow> routers_of out (derived_name c key @ ''-secure'') \<noteq> None)"
    by blast
  have keys: "fst ` set visit = dom (Routers h)"
    using assms(2) by (rule range_order_keys)
  have origin: "\<exists>key svc lb.
          key \<in> dom (Routers h) \<and> survives h key \<and> n = derived_name c key \<and>
          Services h key = Some (Some svc) \<and> LoadBalancer svc = Some lb \<and>
          s = Some (emitted_service c (length (Servers lb)))"
    if "services_of out n = Some s" for n s
  proof -
    from prov that obtain key item svc lb where
      "(key, item) \<in> set visit" "survives h key" "n = derived_name c key"
      "Services h key = Some (Some svc)" "LoadBalancer svc = Some lb"
      "s = Some (emitted_service c (length (Servers lb)))"
      unfolding provenance_def by blast
    moreover from this(1) keys have "key \<in> dom (Routers h)" by force
    ultimately show ?thesis by blast
  qed
  have own: "services_of out (derived_name c key) =
         Some (Some (emitted_service c (length (Servers lb))))"
    if k: "key \<in> dom (Routers h)" and s: "survives h key"
      and src: "Services h key = Some (Some svc)" "LoadBalancer svc = Some lb"
      and u: "\<forall>k \<in> dom (Routers h). k \<noteq> key \<and> survives h k \<longrightarrow>
          derived_name c k \<noteq> derived_name c key"
    for key svc lb
  proof -
    from k keys obtain item where "(key, item) \<in> set visit" by force
    with pres s obtain sv where sv: "services_of out (derived_name c key) = Some sv"
      by fastforce
    from origin [OF sv] obtain k' svc' lb' where
      k': "k' \<in> dom (Routers h)" "survives h k'" "derived_name c key = derived_name c k'"
        "Services h k' = Some (Some svc')" "LoadBalancer svc' = Some lb'"
        "sv = Some (emitted_service c (length (Servers lb')))"
      by blast
    from u k'(1-3) have "k' = key" by metis
    with k' src sv show ?thesis by simp
  qed
  from run origin own show ?thesis
    unfolding emitted_service_def by blast
qed

theorem service_servers_emitted_witness:
  "\<exists>out. prepareResponse plain_client example_visit \<lparr>HTTP = Some example_http\<rparr> = Inr out \<and>
     services_of out ''web-a.example'' =
       Some (Some \<lparr>LoadBalancer = Some \<lparr>Servers =
         [\<lparr>URL = ''http://a.example:8081/''\<rparr>, \<lparr>URL = ''http://a.example:8081/''\<rparr>]\<rparr>\<rparr>)"
proof -
  from service_servers_emitted [OF example_http_facts(1-3), of plain_client] obtain out where
    run: "prepareResponse plain_client example_visit \<lparr>HTTP = Some example_http\<rparr> = Inr out" and
    all: "\<forall>key svc lb.
       key \<in> dom (Routers example_http) \<and> survives example_http key \<and>
       Services example_http key = Some (Some svc) \<and> LoadBalancer svc = Some lb \<and>
       (\<forall>k \<in> dom (Routers example_http). k \<noteq> key \<and> survives example_http k \<longrightarrow>
          derived_name plain_client k \<noteq> derived_name plain_client key) \<longrightarrow>
       services_of out (derived_name plain_client key) =
         Some (Some \<lparr>LoadBalancer = Some \<lparr>Servers =
           replicate (length (Servers lb))
             \<lparr>URL = buildURI (endpoint plain_client) (WEB (endpoint plain_client))
                      defaultPath\<rparr>\<rparr>\<rparr>)"
    by blast
  have u: "\<forall>k \<in> dom (Routers example_http). k \<noteq> ''web@docker'' \<and> survives example_http k \<longrightarrow>
          derived_name plain_client k \<noteq> derived_name plain_client ''web@docker''"
    using example_http_facts(7) by (simp add: example_http_facts(8))
  have d: "''web@docker'' \<in> dom (Routers example_http)"
    by (simp add: example_http_facts(8))
  have lb: "LoadBalancer web_service =
      Some \<lparr>Servers = [\<lparr>URL = ''http://10.0.0.1:80''\<rparr>, \<lparr>URL = ''http://10.0.0.2:80''\<rparr>]\<rparr>"
    by (simp add: web_service_def)
  from all d example_http_facts(5,6) lb u
  have "services_of out (derived_name plain_client ''web@docker'') =
         Some (Some \<lparr>LoadBalancer = Some \<lparr>Servers =
           replicate (length (Servers
               \<lparr>Servers = [\<lparr>URL = ''http://10.0.0.1:80''\<rparr>, \<lparr>URL = ''http://10.0.0.2:80''\<rparr>]\<rparr>))
             \<lparr>URL = buildURI (endpoint plain_client) (WEB (endpoint plain_client))
                      defaultPath\<rparr>\<rparr>\<rparr>)"
    by blast
  then have "services_of out ''web-a.example'' =
       Some (Some \<lparr>LoadBalancer = Some \<lparr>Servers =
         [\<lparr>URL = ''http://a.example:8081/''\<rparr>, \<lparr>URL = ''http://a.example:8081/''\<rparr>]\<rparr>\<rparr>)"
    by (simp add: example_names(1) example_client_uri numeral_2_eq_2)
  with run show ?thesis by blast
qed

theorem service_servers_emitted_counterexample:
  "range_order (Routers colliding_http) file_last \<and>
   range_order (Routers colliding_http) docker_last \<and>
   survives colliding_http ''web@docker'' \<and> survives colliding_http ''web@file'' \<and>
   Services colliding_http ''web@docker'' = Some (Some web_service) \<and>
   Services colliding_http ''web@file'' = Some (Some one_server) \<and>
   map_option (length \<circ> Servers) (LoadBalancer web_service) = Some 2 \<and>
   map_option (length \<circ> Servers) (LoadBalancer one_server) = Some 1 \<and>
   map_sum id services_of (prepareResponse plain_client file_last \<lparr>HTTP = Some colliding_http\<rparr>) =
     Inr [''web-a.example'' \<mapsto>
          Some \<lparr>LoadBalancer = Some \<lparr>Servers = [\<lparr>URL = ''http://a.example:8081/''\<rparr>]\<rparr>\<rparr>] \<and>
   map_sum id services_of (prepareResponse plain_client docker_last \<lparr>HTTP = Some colliding_http\<rparr>) =
     Inr [''web-a.example'' \<mapsto>
          Some \<lparr>LoadBalancer = Some \<lparr>Servers =
            [\<lparr>URL = ''http://a.example:8081/''\<rparr>, \<lparr>URL = ''http://a.example:8081/''\<rparr>]\<rparr>\<rparr>]"
proof -
  have o: "range_order (Routers colliding_http) file_last"
    "range_order (Routers colliding_http) docker_last"
    by (auto simp: range_order_def colliding_http_def file_last_def docker_last_def)
  have r: "survives colliding_http ''web@docker''" "survives colliding_http ''web@file''"
    "Services colliding_http ''web@docker'' = Some (Some web_service)"
    "Services colliding_http ''web@file'' = Some (Some one_server)"
    "map_option (length \<circ> Servers) (LoadBalancer web_service) = Some 2"
    "map_option (length \<circ> Servers) (LoadBalancer one_server) = Some 1"
    by (simp_all add: colliding_http_def survives_def HasSuffix_def web_service_def
          one_server_def)
  have u: "buildURI \<lparr>Host = ''a.example'', API = 8080, WEB = 8081, TLS = None\<rparr> 8081 defaultPath =
      ''http://a.example:8081/''"
    using example_uri by (simp add: example_endpoint_def)
  have p1: "map_sum id services_of
      (prepareResponse plain_client file_last \<lparr>HTTP = Some colliding_http\<rparr>) =
     Inr [''web-a.example'' \<mapsto>
          Some \<lparr>LoadBalancer = Some \<lparr>Servers = [\<lparr>URL = ''http://a.example:8081/''\<rparr>]\<rparr>\<rparr>]"
    by (simp add: example_simps u colliding_http_def file_last_def docker_router_def
          file_router_def web_service_def one_server_def services_of_def)
  have p2: "map_sum id services_of
      (prepareResponse plain_client docker_last \<lparr>HTTP = Some colliding_http\<rparr>) =
     Inr [''web-a.example'' \<mapsto>
          Some \<lparr>LoadBalancer = Some \<lparr>Servers =
            [\<lparr>URL = ''http://a.example:8081/''\<rparr>, \<lparr>URL = ''http://a.example:8081/''\<rparr>]\<rparr>\<rparr>]"
    by (simp add: example_simps u colliding_http_def docker_last_def docker_router_def
          file_router_def web_service_def one_server_def services_of_def)
  from o r p1 p2 show ?thesis by blast
qed

section \<open>TLS routers and the redirect middleware\<close>

text \<open>
  Claim C6, amended.  Let the document be well formed, so that \<open>prepareResponse\<close>
  returns a fragment, and let the host of the endpoint be neither \<open>secure\<close> nor end in
  \<open>-secure\<close>.  With a certificate resolver, for every surviving key the fragment has
  under the derived name a plain router with the middleware \<open>http2https\<close> and no TLS,
  and under the derived name followed by \<open>-secure\<close> a router with the same service and
  the same rule, no middleware, and the certificate resolver; the rule is that of a
  surviving source router with this derived name.  The middlewares of the fragment are
  exactly the one entry \<open>http2https\<close>, a permanent redirect to \<open>https\<close>, when some key
  survives, and none otherwise.  Without a resolver every router of the fragment has no
  TLS and no middleware, no router key ends in \<open>-secure\<close>, and the fragment has no
  middleware.

  As stated, for every host, the claim fails: with the host \<open>secure\<close> the key of the
  TLS router of \<open>a@x\<close> is the key of the plain router of \<open>a-secure@x\<close>, and the
  router visited last replaces the other.
\<close>

theorem tls_routers_and_redirect:
  assumes "HTTP res = Some h" and "range_order (Routers h) visit" and "well_formed h visit"
    and H: "\<not> suffix ''-secure'' (''-'' @ endpoint.Host (endpoint c))"
  shows "\<exists>out. prepareResponse c visit res = Inr out \<and>
     (case resolver c of
        Some r \<Rightarrow>
          (\<forall>key \<in> dom (Routers h). survives h key \<longrightarrow>
             (\<exists>k it. Routers h k = Some (Some it) \<and> survives h k \<and>
                derived_name c k = derived_name c key \<and>
                routers_of out (derived_name c key) =
                  Some (Some \<lparr>Service = derived_name c key, Rule = Rule it,
                               Middlewares = [''http2https''], TLS = None\<rparr>) \<and>
                routers_of out (derived_name c key @ ''-secure'') =
                  Some (Some \<lparr>Service = derived_name c key, Rule = Rule it,
                               Middlewares = [], TLS = Some \<lparr>CertResolver = r\<rparr>\<rparr>))) \<and>
          middlewares_of out =
            (if \<exists>key \<in> dom (Routers h). survives h key
             then [''http2https'' \<mapsto>
                    Some \<lparr>RedirectScheme = Some \<lparr>Scheme = ''https'', Permanent = True\<rparr>\<rparr>]
             else Map.empty)
      | None \<Rightarrow>
          (\<forall>n rt. routers_of out n = Some rt \<longrightarrow>
             \<not> suffix ''-secure'' n \<and>
             (\<exists>x. rt = Some x \<and> router.TLS x = None \<and> router.Middlewares x = [])) \<and>
          middlewares_of out = Map.empty)"
proof -
  from prepareResponse_facts [OF assms(1,3), of c] obtain out where
    run: "prepareResponse c visit res = Inr out" and
    prov: "provenance c h (set visit) out" and
    pres: "\<forall>(key, item) \<in> set visit. survives h key \<longrightarrow>
        routers_of out (derived_name c key) \<noteq> None \<and>
        services_of out (derived_name c key) \<noteq> None \<and>
        (resolver c \<noteq> None \<longrightarrow> routers_of out (derived_name c key @ ''-secure'') \<noteq> None)" and
    mw: "middlewares_of out =
       (if resolver c \<noteq> None \<and> (\<exists>(key, item) \<in> set visit. survives h key)
        then [''http2https'' \<mapsto> Some http2https] else Map.empty)" and
    pair: "\<forall>r. resolver c = Some r \<and> \<not> suffix ''-secure'' (''-'' @ endpoint.Host (endpoint c)) \<longrightarrow>
        paired r out"
    by (elim exE conjE) (rule that; assumption)
  have keys: "fst ` set visit = dom (Routers h)"
    using assms(2) by (rule range_order_keys)
  have ex: "(\<exists>(key, item) \<in> set visit. survives h key) \<longleftrightarrow>
            (\<exists>key \<in> dom (Routers h). survives h key)"
  proof -
    have "(\<exists>(key, item) \<in> set visit. survives h key) \<longleftrightarrow>
          (\<exists>key \<in> fst ` set visit. survives h key)"
      by (simp add: case_prod_beta)
    then show ?thesis unfolding keys .
  qed
  show ?thesis
  proof (cases "resolver c")
    case None
    have "\<not> suffix ''-secure'' n \<and>
             (\<exists>x. rt = Some x \<and> router.TLS x = None \<and> router.Middlewares x = [])"
      if "routers_of out n = Some rt" for n rt
    proof -
      from provenance_routerD [OF prov that] obtain key and it :: router where
        alt: "n = derived_name c key \<and> rt = Some (plain_router c n (Rule it)) \<or>
              (\<exists>r. resolver c = Some r \<and> n = derived_name c key @ ''-secure'' \<and>
                   rt = Some (secure_router (derived_name c key) (Rule it) r))"
        by (elim exE conjE) (rule that; assumption)
      with None have n: "n = derived_name c key" and rt: "rt = Some (plain_router c n (Rule it))"
        by simp_all
      have "\<not> suffix ''-secure'' n"
        unfolding n using H by (rule derived_name_not_secure)
      moreover have "router.TLS (plain_router c n (Rule it)) = None"
        "router.Middlewares (plain_router c n (Rule it)) = []"
        using None by (simp_all add: plain_router_def)
      ultimately show ?thesis using rt by blast
    qed
    moreover have "middlewares_of out = Map.empty" using mw None by simp
    ultimately show ?thesis
      unfolding None option.case using run by (intro exI [of _ out] conjI allI impI) blast+
  next
    case (Some r)
    have p: "paired r out" using pair Some H by blast
    have twin: "\<exists>k it. Routers h k = Some (Some it) \<and> survives h k \<and>
                derived_name c k = derived_name c key \<and>
                routers_of out (derived_name c key) =
                  Some (Some \<lparr>Service = derived_name c key, Rule = Rule it,
                               Middlewares = [''http2https''], TLS = None\<rparr>) \<and>
                routers_of out (derived_name c key @ ''-secure'') =
                  Some (Some \<lparr>Service = derived_name c key, Rule = Rule it,
                               Middlewares = [], TLS = Some \<lparr>CertResolver = r\<rparr>\<rparr>)"
      if k: "key \<in> dom (Routers h)" and s: "survives h key" for key
    proof -
      from k keys obtain item where "(key, item) \<in> set visit" by force
      with pres s obtain rt where rt: "routers_of out (derived_name c key) = Some rt"
        by fastforce
      from provenance_routerD [OF prov rt] obtain k' it' where
        k': "(k', Some it') \<in> set visit" "survives h k'" and
        alt: "derived_name c key = derived_name c k' \<and>
                rt = Some (plain_router c (derived_name c key) (Rule it')) \<or>
              (\<exists>r. resolver c = Some r \<and> derived_name c key = derived_name c k' @ ''-secure'' \<and>
                   rt = Some (secure_router (derived_name c k') (Rule it') r))"
        by (elim exE conjE) (rule that; assumption)
      have "derived_name c key \<noteq> derived_name c k' @ ''-secure''"
        using derived_name_not_secure [OF H, of key] by (metis suffixI)
      with alt have a: "derived_name c key = derived_name c k'"
        "rt = Some (plain_router c (derived_name c key) (Rule it'))"
        by auto
      have pl: "routers_of out (derived_name c key) =
          Some (Some (plain_router c (derived_name c key) (Rule it')))"
        using rt a(2) by simp
      have "router.TLS (plain_router c (derived_name c key) (Rule it')) = None"
        "Rule (plain_router c (derived_name c key) (Rule it')) = Rule it'"
        by (simp_all add: plain_router_def)
      with p pl have se: "routers_of out (derived_name c key @ ''-secure'') =
          Some (Some (secure_router (derived_name c key) (Rule it') r))"
        unfolding paired_def by metis
      have src: "Routers h k' = Some (Some it')"
        using k'(1) range_order_lookup [OF assms(2)] by simp
      show ?thesis
        by (rule exI [of _ k'], rule exI [of _ it'])
           (use src k'(2) a(1) pl se Some in \<open>simp add: plain_router_def secure_router_def\<close>)
    qed
    have "middlewares_of out =
            (if \<exists>key \<in> dom (Routers h). survives h key
             then [''http2https'' \<mapsto>
                    Some \<lparr>RedirectScheme = Some \<lparr>Scheme = ''https'', Permanent = True\<rparr>\<rparr>]
             else Map.empty)"
      using mw Some ex by (simp add: http2https_def)
    then show ?thesis
      unfolding Some option.case using run twin by (intro exI [of _ out] conjI ballI impI) blast+
  qed
qed

theorem tls_routers_and_redirect_counterexample:
  "range_order (Routers twin_http) plain_key_last \<and>
   range_order (Routers twin_http) secure_key_last \<and>
   survives twin_http ''a@x'' \<and> survives twin_http ''a-secure@x'' \<and>
   derived_name secure_host_client ''a@x'' = ''a-secure'' \<and>
   derived_name secure_host_client ''a-secure@x'' = ''a-secure-secure'' \<and>
   router_at ''a-secure-secure''
     (prepareResponse secure_host_client plain_key_last \<lparr>HTTP = Some twin_http\<rparr>) =
     Some (Some \<lparr>Service = ''a-secure'', Rule = ''Host(a)'', Middlewares = [],
                  TLS = Some \<lparr>CertResolver = ''myresolver''\<rparr>\<rparr>) \<and>
   router_at ''a-secure-secure''
     (prepareResponse secure_host_client secure_key_last \<lparr>HTTP = Some twin_http\<rparr>) =
     Some (Some \<lparr>Service = ''a-secure-secure'', Rule = ''Host(b)'',
                  Middlewares = [''http2https''], TLS = None\<rparr>) \<and>
   router_at ''a-secure''
     (prepareResponse secure_host_plain_client secure_key_last \<lparr>HTTP = Some twin_http\<rparr>) =
     Some (Some \<lparr>Service = ''a-secure'', Rule = ''Host(a)'', Middlewares = [], TLS = None\<rparr>) \<and>
   suffix ''-secure'' ''a-secure''"
proof -
  have p1: "router_at ''a-secure-secure''
     (prepareResponse secure_host_client plain_key_last \<lparr>HTTP = Some twin_http\<rparr>) =
     Some (Some \<lparr>Service = ''a-secure'', Rule = ''Host(a)'', Middlewares = [],
                  TLS = Some \<lparr>CertResolver = ''myresolver''\<rparr>\<rparr>)"
    by (simp add: twin_simps)
  have p2: "router_at ''a-secure-secure''
     (prepareResponse secure_host_client secure_key_last \<lparr>HTTP = Some twin_http\<rparr>) =
     Some (Some \<lparr>Service = ''a-secure-secure'', Rule = ''Host(b)'',
                  Middlewares = [''http2https''], TLS = None\<rparr>)"
    by (simp add: twin_simps)
  have p3: "router_at ''a-secure''
     (prepareResponse secure_host_plain_client secure_key_last \<lparr>HTTP = Some twin_http\<rparr>) =
     Some (Some \<lparr>Service = ''a-secure'', Rule = ''Host(a)'', Middlewares = [], TLS = None\<rparr>)"
    by (simp add: twin_simps)
  have s: "suffix ''-secure'' ''a-secure''"
    by (simp add: HasSuffix_iff_suffix [symmetric] HasSuffix_def)
  from twin_http_facts secure_host_names(1,2) p1 p2 p3 s show ?thesis by blast
qed

theorem tls_routers_and_redirect_witness:
  "(\<exists>out. prepareResponse tls_client example_visit \<lparr>HTTP = Some example_http\<rparr> = Inr out \<and>
      routers_of out ''web-a.example'' =
        Some (Some \<lparr>Service = ''web-a.example'', Rule = ''Host(a)'',
                     Middlewares = [''http2https''], TLS = None\<rparr>) \<and>
      routers_of out ''web-a.example-secure'' =
        Some (Some \<lparr>Service = ''web-a.example'', Rule = ''Host(a)'', Middlewares = [],
                     TLS = Some \<lparr>CertResolver = ''myresolver''\<rparr>\<rparr>) \<and>
      middlewares_of out =
        [''http2https'' \<mapsto>
           Some \<lparr>RedirectScheme = Some \<lparr>Scheme = ''https'', Permanent = True\<rparr>\<rparr>]) \<and>
   (\<exists>out. prepareResponse plain_client example_visit \<lparr>HTTP = Some example_http\<rparr> = Inr out \<and>
      middlewares_of out = Map.empty)"
proof -
  from tls_routers_and_redirect [OF example_http_facts(1-3) example_host_not_secure(1)]
  obtain out where
    run: "prepareResponse tls_client example_visit \<lparr>HTTP = Some example_http\<rparr> = Inr out" and
    twin: "\<forall>key \<in> dom (Routers example_http). survives example_http key \<longrightarrow>
             (\<exists>k it. Routers example_http k = Some (Some it) \<and> survives example_http k \<and>
                derived_name tls_client k = derived_name tls_client key \<and>
                routers_of out (derived_name tls_client key) =
                  Some (Some \<lparr>Service = derived_name tls_client key, Rule = Rule it,
                               Middlewares = [''http2https''], TLS = None\<rparr>) \<and>
                routers_of out (derived_name tls_client key @ ''-secure'') =
                  Some (Some \<lparr>Service = derived_name tls_client key, Rule = Rule it,
                               Middlewares = [],
                               TLS = Some \<lparr>CertResolver = ''myresolver''\<rparr>\<rparr>))" and
    mw: "middlewares_of out =
            (if \<exists>key \<in> dom (Routers example_http). survives example_http key
             then [''http2https'' \<mapsto>
                    Some \<lparr>RedirectScheme = Some \<lparr>Scheme = ''https'', Permanent = True\<rparr>\<rparr>]
             else Map.empty)"
    unfolding example_names(4) option.case by (elim exE conjE) (rule that; assumption)
  have d: "''web@docker'' \<in> dom (Routers example_http)"
    by (simp add: example_http_facts(8))
  from twin d example_http_facts(6) obtain k and it :: router where
    k: "Routers example_http k = Some (Some it)" "survives example_http k" and
    r: "routers_of out (derived_name tls_client ''web@docker'') =
          Some (Some \<lparr>Service = derived_name tls_client ''web@docker'', Rule = Rule it,
                       Middlewares = [''http2https''], TLS = None\<rparr>)"
       "routers_of out (derived_name tls_client ''web@docker'' @ ''-secure'') =
          Some (Some \<lparr>Service = derived_name tls_client ''web@docker'', Rule = Rule it,
                       Middlewares = [],
                       TLS = Some \<lparr>CertResolver = ''myresolver''\<rparr>\<rparr>)"
    by blast
  from k(1) have "k \<in> dom (Routers example_http)" by blast
  with k(2) example_http_facts(7) have "k = ''web@docker''"
    unfolding example_http_facts(8) by blast
  with k(1) example_http_facts(4) have "it = web_router" by simp
  then have rule: "Rule it = ''Host(a)''" by (simp add: web_router_def)
  have m: "middlewares_of out =
        [''http2https'' \<mapsto>
           Some \<lparr>RedirectScheme = Some \<lparr>Scheme = ''https'', Permanent = True\<rparr>\<rparr>]"
    using mw d example_http_facts(6) by auto
  have first: "\<exists>out. prepareResponse tls_client example_visit \<lparr>HTTP = Some example_http\<rparr> = Inr out \<and>
      routers_of out ''web-a.example'' =
        Some (Some \<lparr>Service = ''web-a.example'', Rule = ''Host(a)'',
                     Middlewares = [''http2https''], TLS = None\<rparr>) \<and>
      routers_of out ''web-a.example-secure'' =
        Some (Some \<lparr>Service = ''web-a.example'', Rule = ''Host(a)'', Middlewares = [],
                     TLS = Some \<lparr>CertResolver = ''myresolver''\<rparr>\<rparr>) \<and>
      middlewares_of out =
        [''http2https'' \<mapsto>
           Some \<lparr>RedirectScheme = Some \<lparr>Scheme = ''https'', Permanent = True\<rparr>\<rparr>]"
    using run r m unfolding rule example_names(2) by (intro exI [of _ out]) simp
  from tls_routers_and_redirect [OF example_http_facts(1-3) example_host_not_secure(2)]
  obtain out' where
    "prepareResponse plain_client example_visit \<lparr>HTTP = Some example_http\<rparr> = Inr out'"
    "middlewares_of out' = Map.empty"
    unfolding example_names(3) option.case by (elim exE conjE) (rule that; assumption)
  then have "\<exists>out. prepareResponse plain_client example_visit \<lparr>HTTP = Some example_http\<rparr> = Inr out \<and>
      middlewares_of out = Map.empty"
    by blast
  with first show ?thesis by (rule conjI)
qed




section \<open>Keys of the fragment\<close>

text \<open>
  Claim C1, amended.  Let the documents be well formed, so that \<open>prepareResponse\<close>
  returns a fragment for each endpoint.  Every service key of a fragment ends in a dash
  and the host of its endpoint; every router key ends in a dash and the host or, only
  when a certificate resolver is supplied, in a dash, the host and \<open>-secure\<close>.  When none
  of these key endings of one endpoint is a suffix of a key ending of the other, the
  router keys of the two fragments are disjoint and so are their service keys.

  As stated, the claim fails twice: with a resolver the router key
  \<open>web-a.example-secure\<close> does not end in the host \<open>a.example\<close>; and the distinct
  hosts \<open>b\<close> and \<open>a-b\<close> both produce the key \<open>x-a-b\<close>, from the routers \<open>x-a@d\<close> and
  \<open>x@d\<close>.
\<close>

theorem keys_end_with_host:
  assumes "HTTP res1 = Some h1" and "well_formed h1 visit1"
    and "HTTP res2 = Some h2" and "well_formed h2 visit2"
  shows "\<exists>out1 out2.
     prepareResponse c1 visit1 res1 = Inr out1 \<and> prepareResponse c2 visit2 res2 = Inr out2 \<and>
     (\<forall>n \<in> dom (routers_of out1). \<exists>e \<in> set (key_endings c1). suffix e n) \<and>
     (\<forall>n \<in> dom (services_of out1). suffix (''-'' @ endpoint.Host (endpoint c1)) n) \<and>
     ((\<forall>e1 \<in> set (key_endings c1). \<forall>e2 \<in> set (key_endings c2).
         \<not> suffix e1 e2 \<and> \<not> suffix e2 e1) \<longrightarrow>
      dom (routers_of out1) \<inter> dom (routers_of out2) = {} \<and>
      dom (services_of out1) \<inter> dom (services_of out2) = {})"
proof -
  from prepareResponse_facts [OF assms(1,2), of c1] obtain out1 where
    run1: "prepareResponse c1 visit1 res1 = Inr out1" and
    prov1: "provenance c1 h1 (set visit1) out1"
    by (elim exE conjE) (rule that; assumption)
  from prepareResponse_facts [OF assms(3,4), of c2] obtain out2 where
    run2: "prepareResponse c2 visit2 res2 = Inr out2" and
    prov2: "provenance c2 h2 (set visit2) out2"
    by (elim exE conjE) (rule that; assumption)
  have r1: "\<forall>n \<in> dom (routers_of out1). \<exists>e \<in> set (key_endings c1). suffix e n"
    using router_key_ending [OF prov1] by blast
  have s1: "\<forall>n \<in> dom (services_of out1). suffix (''-'' @ endpoint.Host (endpoint c1)) n"
    using service_key_ending [OF prov1] by blast
  have d: "dom (routers_of out1) \<inter> dom (routers_of out2) = {} \<and>
      dom (services_of out1) \<inter> dom (services_of out2) = {}"
    if sep: "\<forall>e1 \<in> set (key_endings c1). \<forall>e2 \<in> set (key_endings c2).
         \<not> suffix e1 e2 \<and> \<not> suffix e2 e1"
  proof -
    have "False" if "n \<in> dom (routers_of out1)" "n \<in> dom (routers_of out2)" for n
      using endings_disjoint [OF sep router_key_ending [OF prov1 that(1)]
          router_key_ending [OF prov2 that(2)]] .
    moreover have "False" if "n \<in> dom (services_of out1)" "n \<in> dom (services_of out2)" for n
    proof -
      have "\<exists>e \<in> set (key_endings c1). suffix e n"
        using service_key_ending [OF prov1 that(1)] by (simp add: key_endings_def)
      moreover have "\<exists>e \<in> set (key_endings c2). suffix e n"
        using service_key_ending [OF prov2 that(2)] by (simp add: key_endings_def)
      ultimately show False by (rule endings_disjoint [OF sep])
    qed
    ultimately show ?thesis by blast
  qed
  from run1 run2 r1 s1 d show ?thesis by blast
qed

theorem keys_end_with_host_counterexample:
  "endpoint.Host (endpoint b_client) \<noteq> endpoint.Host (endpoint ab_client) \<and>
   range_order (Routers xa_http) [(''x-a@d'', Some docker_router)] \<and>
   range_order (Routers x_http) [(''x@d'', Some file_router)] \<and>
   router_at ''x-a-b''
     (prepareResponse b_client [(''x-a@d'', Some docker_router)] \<lparr>HTTP = Some xa_http\<rparr>) =
     Some (Some \<lparr>Service = ''x-a-b'', Rule = ''Host(a)'', Middlewares = [], TLS = None\<rparr>) \<and>
   router_at ''x-a-b''
     (prepareResponse ab_client [(''x@d'', Some file_router)] \<lparr>HTTP = Some x_http\<rparr>) =
     Some (Some \<lparr>Service = ''x-a-b'', Rule = ''Host(b)'', Middlewares = [], TLS = None\<rparr>) \<and>
   service_at ''x-a-b''
     (prepareResponse b_client [(''x-a@d'', Some docker_router)] \<lparr>HTTP = Some xa_http\<rparr>) \<noteq> None \<and>
   service_at ''x-a-b''
     (prepareResponse ab_client [(''x@d'', Some file_router)] \<lparr>HTTP = Some x_http\<rparr>) \<noteq> None \<and>
   router_at ''web-a.example-secure''
     (prepareResponse tls_client example_visit \<lparr>HTTP = Some example_http\<rparr>) =
     Some (Some \<lparr>Service = ''web-a.example'', Rule = ''Host(a)'', Middlewares = [],
                  TLS = Some \<lparr>CertResolver = ''myresolver''\<rparr>\<rparr>) \<and>
   endpoint.Host (endpoint tls_client) = ''a.example'' \<and>
   \<not> suffix ''a.example'' ''web-a.example-secure''"
proof -
  have h: "endpoint.Host (endpoint b_client) \<noteq> endpoint.Host (endpoint ab_client)"
    "endpoint.Host (endpoint tls_client) = ''a.example''"
    by (simp_all add: b_client_def ab_client_def example_names)
  have o: "range_order (Routers xa_http) [(''x-a@d'', Some docker_router)]"
    "range_order (Routers x_http) [(''x@d'', Some file_router)]"
    by (simp_all add: range_order_def xa_http_def x_http_def)
  note defs = prepareResponse_def loop_body_def Let_def derived_name_def HasSuffix_def
    empty_http_def b_client_def ab_client_def xa_http_def x_http_def docker_router_def
    file_router_def one_server_def router_at_def service_at_def routers_of_def services_of_def
  have p: "router_at ''x-a-b''
     (prepareResponse b_client [(''x-a@d'', Some docker_router)] \<lparr>HTTP = Some xa_http\<rparr>) =
     Some (Some \<lparr>Service = ''x-a-b'', Rule = ''Host(a)'', Middlewares = [], TLS = None\<rparr>)"
    "router_at ''x-a-b''
     (prepareResponse ab_client [(''x@d'', Some file_router)] \<lparr>HTTP = Some x_http\<rparr>) =
     Some (Some \<lparr>Service = ''x-a-b'', Rule = ''Host(b)'', Middlewares = [], TLS = None\<rparr>)"
    "service_at ''x-a-b''
     (prepareResponse b_client [(''x-a@d'', Some docker_router)] \<lparr>HTTP = Some xa_http\<rparr>) \<noteq> None"
    "service_at ''x-a-b''
     (prepareResponse ab_client [(''x@d'', Some file_router)] \<lparr>HTTP = Some x_http\<rparr>) \<noteq> None"
    by (simp_all add: defs)
  have s: "\<not> suffix ''a.example'' ''web-a.example-secure''"
    by (simp add: HasSuffix_iff_suffix [symmetric] HasSuffix_def)
  from h o p example_tls_fragment s show ?thesis by blast
qed

theorem keys_end_with_host_witness:
  "\<exists>out1 out2.
     prepareResponse tls_client example_visit \<lparr>HTTP = Some example_http\<rparr> = Inr out1 \<and>
     prepareResponse b_example_client example_visit \<lparr>HTTP = Some example_http\<rparr> = Inr out2 \<and>
     dom (routers_of out1) \<inter> dom (routers_of out2) = {} \<and>
     dom (services_of out1) \<inter> dom (services_of out2) = {}"
proof -
  have e: "key_endings tls_client = [''-a.example'', ''-a.example-secure'']"
    "key_endings b_example_client = [''-b.example'', ''-b.example-secure'']"
    by (simp_all add: key_endings_def example_names b_example_client_def insecure_endpoint_def)
  have sep: "\<forall>e1 \<in> set (key_endings tls_client). \<forall>e2 \<in> set (key_endings b_example_client).
         \<not> suffix e1 e2 \<and> \<not> suffix e2 e1"
    unfolding e by (simp add: HasSuffix_iff_suffix [symmetric] HasSuffix_def)
  from keys_end_with_host [OF example_http_facts(1,3) example_http_facts(1,3),
      of tls_client b_example_client]
  obtain out1 out2 where
    "prepareResponse tls_client example_visit \<lparr>HTTP = Some example_http\<rparr> = Inr out1"
    "prepareResponse b_example_client example_visit \<lparr>HTTP = Some example_http\<rparr> = Inr out2"
    "(\<forall>e1 \<in> set (key_endings tls_client). \<forall>e2 \<in> set (key_endings b_example_client).
         \<not> suffix e1 e2 \<and> \<not> suffix e2 e1) \<longrightarrow>
      dom (routers_of out1) \<inter> dom (routers_of out2) = {} \<and>
      dom (services_of out1) \<inter> dom (services_of out2) = {}"
    by (elim exE conjE) (rule that; assumption)
  with sep show ?thesis by blast
qed

end
